theory Spec2Isabelle
  imports Complex_Main "HOL-Library.Word"
begin

section \<open>Ellipse fitting of diffraction spots (commensuration\_ellipses.cpp)\<close>

text \<open>
  A shallow embedding of the functions of \<^verbatim>\<open>commensuration_ellipses.cpp\<close> that turn
  a conic into an ellipse, build the annular mask, repackage the results of the external
  numerical engine and refine the mask in \<^verbatim>\<open>get_ellipses\<close>.

  Conventions of the model:
  \<^item> a \<^verbatim>\<open>double\<close> (and a \<^verbatim>\<open>float\<close>) is a value of \<open>dbl\<close>: an exact real or
    one of the special values of IEEE 754. Rounding, overflow and the sign of zero are
    not modelled in the arithmetic of the conic; a zero divisor counts as \<open>+0.0\<close>. The
    root that the annular mask compares with its radii, and the size of that mask, are
    rounded as the code rounds them;
  \<^item> \<^verbatim>\<open>operator[]\<close> on a \<^verbatim>\<open>std::vector\<close> outside its bounds is undefined
    behaviour in C++; the model makes it the error value \<open>IndexOutOfRange\<close>, so that
    every such access is a visible branch;
  \<^item> the calls into the MATLAB engine are parameters of the model: a function from the
    packaged arguments to the arrays the engine returns, or an error;
  \<^item> an \<^verbatim>\<open>int\<close> is an unbounded \<open>int\<close>: the index arithmetic of these functions
    stays far below \<open>2^31\<close> for any image that fits in memory;
  \<^item> the loop of \<^verbatim>\<open>create_annular_mask\<close> runs under \<^verbatim>\<open>#pragma omp parallel for\<close>
    with a row pointer that its threads share; the model takes the row that each store
    goes to as a parameter.
\<close>

subsection \<open>Doubles\<close>

datatype dbl = Fin real | PInf | NInf | NaN

instantiation dbl :: "{plus, minus, uminus, times, inverse, ord}"
begin

fun plus_dbl :: "dbl \<Rightarrow> dbl \<Rightarrow> dbl" where
  "plus_dbl (Fin x) (Fin y) = Fin (x + y)"
| "plus_dbl NaN _ = NaN"
| "plus_dbl _ NaN = NaN"
| "plus_dbl PInf NInf = NaN"
| "plus_dbl NInf PInf = NaN"
| "plus_dbl PInf _ = PInf"
| "plus_dbl _ PInf = PInf"
| "plus_dbl NInf _ = NInf"
| "plus_dbl _ NInf = NInf"

fun uminus_dbl :: "dbl \<Rightarrow> dbl" where
  "uminus_dbl (Fin x) = Fin (- x)"
| "uminus_dbl PInf = NInf"
| "uminus_dbl NInf = PInf"
| "uminus_dbl NaN = NaN"

definition minus_dbl :: "dbl \<Rightarrow> dbl \<Rightarrow> dbl" where
  "minus_dbl x y = x + (- y)"

fun times_dbl :: "dbl \<Rightarrow> dbl \<Rightarrow> dbl" where
  "times_dbl (Fin x) (Fin y) = Fin (x * y)"
| "times_dbl NaN _ = NaN"
| "times_dbl _ NaN = NaN"
| "times_dbl PInf (Fin y) = (if 0 < y then PInf else if y < 0 then NInf else NaN)"
| "times_dbl NInf (Fin y) = (if 0 < y then NInf else if y < 0 then PInf else NaN)"
| "times_dbl (Fin x) PInf = (if 0 < x then PInf else if x < 0 then NInf else NaN)"
| "times_dbl (Fin x) NInf = (if 0 < x then NInf else if x < 0 then PInf else NaN)"
| "times_dbl PInf PInf = PInf"
| "times_dbl PInf NInf = NInf"
| "times_dbl NInf PInf = NInf"
| "times_dbl NInf NInf = PInf"

fun divide_dbl :: "dbl \<Rightarrow> dbl \<Rightarrow> dbl" where
  "divide_dbl (Fin x) (Fin y) =
     (if y \<noteq> 0 then Fin (x / y) else if 0 < x then PInf else if x < 0 then NInf else NaN)"
| "divide_dbl NaN _ = NaN"
| "divide_dbl _ NaN = NaN"
| "divide_dbl (Fin x) _ = Fin 0"
| "divide_dbl PInf (Fin y) = (if 0 \<le> y then PInf else NInf)"
| "divide_dbl NInf (Fin y) = (if 0 \<le> y then NInf else PInf)"
| "divide_dbl _ _ = NaN"

definition inverse_dbl :: "dbl \<Rightarrow> dbl" where
  "inverse_dbl x = divide (Fin 1) (x::dbl)"

fun less_dbl :: "dbl \<Rightarrow> dbl \<Rightarrow> bool" where
  "less_dbl (Fin x) (Fin y) = (x < y)"
| "less_dbl NaN _ = False"
| "less_dbl _ NaN = False"
| "less_dbl NInf NInf = False"
| "less_dbl NInf _ = True"
| "less_dbl PInf _ = False"
| "less_dbl _ PInf = True"
| "less_dbl _ NInf = False"

fun less_eq_dbl :: "dbl \<Rightarrow> dbl \<Rightarrow> bool" where
  "less_eq_dbl (Fin x) (Fin y) = (x \<le> y)"
| "less_eq_dbl NaN _ = False"
| "less_eq_dbl _ NaN = False"
| "less_eq_dbl NInf _ = True"
| "less_eq_dbl _ PInf = True"
| "less_eq_dbl _ _ = False"

instance ..

end

fun std_atan :: "dbl \<Rightarrow> dbl" where
  "std_atan (Fin x) = Fin (arctan x)"
| "std_atan PInf = Fin (pi / 2)"
| "std_atan NInf = Fin (- (pi / 2))"
| "std_atan NaN = NaN"

fun std_cos :: "dbl \<Rightarrow> dbl" where
  "std_cos (Fin x) = Fin (cos x)"
| "std_cos _ = NaN"

fun std_sin :: "dbl \<Rightarrow> dbl" where
  "std_sin (Fin x) = Fin (sin x)"
| "std_sin _ = NaN"

fun std_sqrt :: "dbl \<Rightarrow> dbl" where
  "std_sqrt (Fin x) = (if 0 \<le> x then Fin (sqrt x) else NaN)"
| "std_sqrt PInf = PInf"
| "std_sqrt _ = NaN"

text \<open>
  The conversion of a real number to a binary floating-point format with \<open>p\<close> bits of
  precision: to the nearest number of the format, a tie to the one with an even last
  bit. \<open>ulp p x\<close> is the distance between the numbers of the format around \<open>x\<close>. The
  range of the exponent is not limited: the numbers converted here, roots of sums of
  squares of \<^verbatim>\<open>int\<close> values and radii, are zero or lie in the normal range of
  \<^verbatim>\<open>float\<close> (24 bits) and \<^verbatim>\<open>double\<close> (53 bits).
\<close>

definition round_even :: "real \<Rightarrow> int" where
  "round_even y =
     (let f = \<lfloor>y\<rfloor>
      in if y - of_int f < 1 / 2 then f
         else if 1 / 2 < y - of_int f then f + 1
         else if even f then f else f + 1)"

definition ulp :: "nat \<Rightarrow> real \<Rightarrow> real" where
  "ulp p x = 2 powr of_int (\<lfloor>log 2 x\<rfloor> - int p + 1)"

definition round_pos :: "nat \<Rightarrow> real \<Rightarrow> real" where
  "round_pos p x = of_int (round_even (x / ulp p x)) * ulp p x"

definition round_to :: "nat \<Rightarrow> real \<Rightarrow> real" where
  "round_to p x =
     (if x = 0 then 0 else if 0 < x then round_pos p x else - round_pos p (- x))"

definition to_double :: "real \<Rightarrow> real" where
  "to_double x = round_to 53 x"

definition to_float :: "real \<Rightarrow> real" where
  "to_float x = round_to 24 x"

fun dbl_to_float :: "dbl \<Rightarrow> dbl" where
  "dbl_to_float (Fin x) = Fin (to_float x)"
| "dbl_to_float d = d"

text \<open>
  Modelled from the spec: the macro \<^verbatim>\<open>PI\<close> is used by the code and defined in a
  header that is not among the sources; the spec writes it \<open>\<pi>\<close>.
\<close>

definition PI :: real where
  "PI = pi"

subsection \<open>Vectors with checked indices\<close>

datatype error =
    IndexOutOfRange int nat
  | NegativeSize int
  | NotFinite
  | IntOverflow
  | EngineError

definition bind_err :: "error + 'a \<Rightarrow> ('a \<Rightarrow> error + 'b) \<Rightarrow> error + 'b" where
  "bind_err m f = (case m of Inl e \<Rightarrow> Inl e | Inr x \<Rightarrow> f x)"

definition vec_get :: "'a list \<Rightarrow> int \<Rightarrow> error + 'a" where
  "vec_get xs i =
     (if 0 \<le> i \<and> i < int (length xs) then Inr (xs ! nat i)
      else Inl (IndexOutOfRange i (length xs)))"

definition vec_set :: "'a list \<Rightarrow> int \<Rightarrow> 'a \<Rightarrow> error + 'a list" where
  "vec_set xs i v =
     (if 0 \<le> i \<and> i < int (length xs) then Inr (xs[nat i := v])
      else Inl (IndexOutOfRange i (length xs)))"

subsection \<open>The ellipse of a conic: \<^verbatim>\<open>ellipse_points_from_conic\<close>\<close>

record point2d =
  pt_x :: dbl
  pt_y :: dbl

definition pt_add :: "point2d \<Rightarrow> point2d \<Rightarrow> point2d" where
  "pt_add p q = \<lparr>pt_x = pt_x p + pt_x q, pt_y = pt_y p + pt_y q\<rparr>"

text \<open>
  Modelled from the spec: the struct \<^verbatim>\<open>ellipse\<close> is declared in a header that is not
  among the sources. The code assigns the fields \<^verbatim>\<open>is_ellipse\<close>, \<^verbatim>\<open>angle\<close>,
  \<^verbatim>\<open>center\<close>, \<^verbatim>\<open>a\<close> and \<^verbatim>\<open>b\<close>, which are the fields the spec gives an Ellipse.
  The fields \<^verbatim>\<open>a\<close> and \<^verbatim>\<open>b\<close> are \<open>el_a\<close> and \<open>el_b\<close> here.
\<close>

record ellipse =
  is_ellipse :: bool
  angle :: dbl
  center :: point2d
  el_a :: dbl
  el_b :: dbl

text \<open>Lines 381 to 393: the recorded angle, from the coefficients of x*x, x*y and y*y.\<close>

definition rotation_angle :: "dbl \<Rightarrow> dbl \<Rightarrow> dbl \<Rightarrow> dbl" where
  "rotation_angle c0 c1 c2 =
     (let theta_times_2 = std_atan (c1 / (c0 - c2));
          theta_times_2 =
            (if theta_times_2 < Fin 0 then theta_times_2 + Fin 0.5 * Fin PI
             else theta_times_2)
      in Fin 0.5 * theta_times_2)"

text \<open>Lines 379 to 418: the fields of \<^verbatim>\<open>el\<close> in the branch that accepts the conic.\<close>

definition conic_to_ellipse ::
  "ellipse \<Rightarrow> dbl \<Rightarrow> dbl \<Rightarrow> dbl \<Rightarrow> dbl \<Rightarrow> dbl \<Rightarrow> dbl \<Rightarrow> ellipse" where
  "conic_to_ellipse el c0 c1 c2 c3 c4 c5 =
     (let theta = rotation_angle c0 c1 c2;
          cos_theta = std_cos theta;
          sin_theta = std_sin theta;
          A = c0 * cos_theta * cos_theta + c1 * cos_theta * sin_theta
                + c2 * sin_theta * sin_theta;
          C = c0 * sin_theta * sin_theta - c1 * cos_theta * sin_theta
                + c2 * cos_theta * cos_theta;
          D = c3 * cos_theta + c4 * sin_theta;
          E = c4 * cos_theta - c3 * sin_theta;
          F = c5;
          x = Fin (- 0.5) * D / A;
          y = Fin (- 0.5) * E / C;
          num = Fin (- 4) * F * A * C + C * D * D + A * E * E
      in el\<lparr>is_ellipse := True,
            angle := theta,
            center := \<lparr>pt_x = x * cos_theta - y * sin_theta,
                       pt_y = x * sin_theta + y * cos_theta\<rparr>,
            el_a := std_sqrt (num / (Fin 4 * A * C * C)),
            el_b := std_sqrt (num / (Fin 4 * A * A * C))\<rparr>)"

text \<open>
  Lines 420 to 426: the vector \<^verbatim>\<open>extrema\<close> has 4 elements, and the code assigns the
  elements 1, 2, 3 and 4 in this order.
\<close>

definition extrema_points :: "ellipse \<Rightarrow> error + point2d list" where
  "extrema_points el =
     (let cos_theta = std_cos (angle el);
          sin_theta = std_sin (angle el);
          extrema = replicate 4 \<lparr>pt_x = Fin 0, pt_y = Fin 0\<rparr>
      in
        bind_err (vec_set extrema 1
          (pt_add (center el) \<lparr>pt_x = - el_b el * sin_theta, pt_y = el_b el * cos_theta\<rparr>))
        (\<lambda>extrema.
        bind_err (vec_set extrema 2
          (pt_add (center el) \<lparr>pt_x = el_a el * cos_theta, pt_y = el_a el * sin_theta\<rparr>))
        (\<lambda>extrema.
        bind_err (vec_set extrema 3
          (pt_add (center el) \<lparr>pt_x = el_b el * sin_theta, pt_y = - el_b el * cos_theta\<rparr>))
        (\<lambda>extrema.
        vec_set extrema 4
          (pt_add (center el) \<lparr>pt_x = - el_a el * cos_theta, pt_y = - el_a el * sin_theta\<rparr>)))))"

text \<open>
  The whole function. Its first argument is the object \<^verbatim>\<open>ellipse el;\<close> as the
  declaration leaves it: the branch that rejects the conic sets \<^verbatim>\<open>is_ellipse\<close> only.
  The test of line 372 reads the elements 0, 2 and 1 of \<^verbatim>\<open>conic\<close>; the other branch
  reads the elements 3, 4 and 5 too.
\<close>

definition ellipse_points_from_conic :: "ellipse \<Rightarrow> dbl list \<Rightarrow> error + ellipse" where
  "ellipse_points_from_conic el conic =
     bind_err (vec_get conic 0) (\<lambda>c0.
     bind_err (vec_get conic 2) (\<lambda>c2.
     bind_err (vec_get conic 1) (\<lambda>c1.
       if Fin 4 * c0 * c2 - c1 * c1 > Fin 0 then Inr (el\<lparr>is_ellipse := False\<rparr>)
       else
         bind_err (vec_get conic 3) (\<lambda>c3.
         bind_err (vec_get conic 4) (\<lambda>c4.
         bind_err (vec_get conic 5) (\<lambda>c5.
           let el' = conic_to_ellipse el c0 c1 c2 c3 c4 c5
           in bind_err (extrema_points el') (\<lambda>extrema. Inr el')))))))"

text \<open>
  The conic of an ellipse, for the round trip of the spec: the coefficients of
  \<open>A x\<^sup>2 + B x y + C y\<^sup>2 + D x + E y + F = 0\<close> (the equation in the comment of
  \<^verbatim>\<open>ellipse_points_from_conic\<close>) for the ellipse with centre \<open>(cx, cy)\<close>, semi-axis
  \<open>a\<close> at the angle \<open>\<theta>\<close> to the x axis and semi-axis \<open>b\<close> across it. This definition
  follows the spec's words; no function of the source computes it.
\<close>

definition conic_of_ellipse :: "real \<Rightarrow> real \<Rightarrow> real \<Rightarrow> real \<Rightarrow> real \<Rightarrow> dbl list" where
  "conic_of_ellipse cx cy a b \<theta> =
     (let A = (cos \<theta>)\<^sup>2 / a\<^sup>2 + (sin \<theta>)\<^sup>2 / b\<^sup>2;
          B = 2 * cos \<theta> * sin \<theta> * (1 / a\<^sup>2 - 1 / b\<^sup>2);
          C = (sin \<theta>)\<^sup>2 / a\<^sup>2 + (cos \<theta>)\<^sup>2 / b\<^sup>2
      in [Fin A, Fin B, Fin C,
          Fin (- 2 * A * cx - B * cy),
          Fin (- B * cx - 2 * C * cy),
          Fin (A * cx\<^sup>2 + B * cx * cy + C * cy\<^sup>2 - 1)])"

subsection \<open>Matrices and the MATLAB engine\<close>

text \<open>
  The pixels of a \<^verbatim>\<open>cv::Mat\<close>, row by row: bytes for a mask (\<^verbatim>\<open>CV_8UC1\<close>), doubles
  for an image of floats. The rows follow each other in one buffer, and
  \<^verbatim>\<open>m.ptr(i)[j]\<close> is the element \<open>i * cols + j\<close> of that buffer: past the end of a row
  it is an element of a later row, and outside the buffer it is an error, as for a
  vector.
\<close>

type_synonym byte = "8 word"

definition mat_cols_of :: "'a list list \<Rightarrow> nat" where
  "mat_cols_of m = (case m of [] \<Rightarrow> 0 | r # _ \<Rightarrow> length r)"

definition mat_ptr_read :: "'a list list \<Rightarrow> int \<Rightarrow> int \<Rightarrow> error + 'a" where
  "mat_ptr_read m i j = vec_get (concat m) (i * int (mat_cols_of m) + j)"

text \<open>
  The arguments of a call of the engine, as the \<^verbatim>\<open>ArrayFactory\<close> builds them, and the
  engine itself: \<^verbatim>\<open>connectMATLAB\<close> gives an engine or fails, and \<^verbatim>\<open>feval\<close> maps the
  name of a MATLAB function, the number of results asked for and the arguments to the
  arrays returned, or fails. The MATLAB scripts are not part of the sources.
\<close>

datatype marg =
    ArrD nat nat "dbl list"
  | ScalarD dbl
  | ScalarI int
  | CharArr string

type_synonym matlab_engine = "string \<Rightarrow> nat \<Rightarrow> marg list \<Rightarrow> error + dbl list list"

text \<open>
  The conversion of a double to \<^verbatim>\<open>int\<close> truncates; it is defined on the finite values
  whose truncation is an \<^verbatim>\<open>int\<close> of 32 bits.
\<close>

definition trunc_real :: "real \<Rightarrow> int" where
  "trunc_real x = (if 0 \<le> x then \<lfloor>x\<rfloor> else \<lceil>x\<rceil>)"

fun int_of_dbl :: "dbl \<Rightarrow> error + int" where
  "int_of_dbl (Fin x) =
     (if - 2147483648 \<le> trunc_real x \<and> trunc_real x \<le> 2147483647
      then Inr (trunc_real x) else Inl IntOverflow)"
| "int_of_dbl _ = Inl NotFinite"

text \<open>A \<^verbatim>\<open>for\<close> loop over the given indices, with the state \<open>s\<close>; it stops at an error.\<close>

fun for_loop :: "int list \<Rightarrow> 's \<Rightarrow> (int \<Rightarrow> 's \<Rightarrow> error + 's) \<Rightarrow> error + 's" where
  "for_loop [] s body = Inr s"
| "for_loop (i # is) s body = bind_err (body i s) (\<lambda>s'. for_loop is s' body)"

subsection \<open>The conic fit: \<^verbatim>\<open>hyper_renorm_ellipse\<close>\<close>

text \<open>
  Lines 308 to 330: the positions and weights of the pixels marked on the mask, row by
  row. The vectors \<^verbatim>\<open>x\<close>, \<^verbatim>\<open>y\<close> and \<^verbatim>\<open>w\<close> have one element for each non-zero pixel
  and the loop fills them in order, so they are built here as lists. \<open>j\<close> is the column
  of the first pixel of the rest of the mask's row; the weight \<^verbatim>\<open>q[j]\<close> is read
  through the pointer to the row \<open>i\<close> of the weights.
\<close>

fun package_row ::
  "int \<Rightarrow> dbl list list \<Rightarrow> int \<Rightarrow> byte list \<Rightarrow> error + (dbl list \<times> dbl list \<times> dbl list)" where
  "package_row i weights j [] = Inr ([], [], [])"
| "package_row i weights j (p # ps) =
     (if p \<noteq> 0 then
        bind_err (mat_ptr_read weights i j) (\<lambda>wj.
        bind_err (package_row i weights (j + 1) ps) (\<lambda>(x, y, w).
          Inr (Fin (real_of_int j) # x, Fin (real_of_int i) # y, wj # w)))
      else package_row i weights (j + 1) ps)"

fun package_rows ::
  "int \<Rightarrow> byte list list \<Rightarrow> dbl list list \<Rightarrow> error + (dbl list \<times> dbl list \<times> dbl list)" where
  "package_rows i [] weights = Inr ([], [], [])"
| "package_rows i (p # rows) weights =
     bind_err (package_row i weights 0 p) (\<lambda>(x1, y1, w1).
     bind_err (package_rows (i + 1) rows weights) (\<lambda>(x2, y2, w2).
       Inr (x1 @ x2, y1 @ y2, w1 @ w2)))"

text \<open>Lines 347 to 355: the values of the array returned go into a vector of 5 elements.\<close>

fun store_params :: "dbl list \<Rightarrow> int \<Rightarrow> dbl list \<Rightarrow> error + dbl list" where
  "store_params ellipse_param k [] = Inr ellipse_param"
| "store_params ellipse_param k (val # el) =
     bind_err (vec_set ellipse_param k val) (\<lambda>ellipse_param.
       store_params ellipse_param (k + 1) el)"

text \<open>
  The whole function; \<open>msk\<close> is the parameter \<^verbatim>\<open>mask\<close>. The values of \<^verbatim>\<open>thresh\<close>
  and \<^verbatim>\<open>max_iter\<close>, whose defaults are declared in a header that is not among the
  sources, are arguments.
\<close>

definition hyper_renorm_ellipse ::
  "error + matlab_engine \<Rightarrow> byte list list \<Rightarrow> dbl list list \<Rightarrow> dbl \<Rightarrow> dbl \<Rightarrow> int
     \<Rightarrow> error + dbl list" where
  "hyper_renorm_ellipse connectMATLAB msk weights f0 thresh max_iter =
     bind_err connectMATLAB (\<lambda>feval.
     bind_err (package_rows 0 msk weights) (\<lambda>(x, y, w).
     bind_err (feval ''hyper_renorm_ellipse'' 1
        [ArrD (length x) 1 x, ArrD (length y) 1 y, ArrD (length w) 1 w,
         ScalarD f0, ScalarI max_iter, ScalarD thresh]) (\<lambda>res.
     bind_err (vec_get res 0) (\<lambda>el.
       store_params (replicate 5 (Fin 0)) 0 el))))"

subsection \<open>The clustering: \<^verbatim>\<open>weighted_kmeans\<close>\<close>

text \<open>
  Lines 553 to 556: the loop \<^verbatim>\<open>for (int j = 0; data[0].size(); j++)\<close> has the size of
  \<^verbatim>\<open>data[0]\<close> (\<open>n\<close> here) as its condition, so it does not run when that is zero and
  does not stop otherwise until \<^verbatim>\<open>data[i][j]\<close> is read past the end of the row.
  \<open>k\<close> stays \<open>0\<close>.
\<close>

function copy_row :: "nat \<Rightarrow> dbl list \<Rightarrow> int \<Rightarrow> int \<Rightarrow> dbl list \<Rightarrow> error + dbl list" where
  "copy_row n row k j data1D =
     (if n \<noteq> 0 then
        (if 0 \<le> j \<and> j < int (length row) then
           (case vec_set data1D k (row ! nat j) of
              Inl e \<Rightarrow> Inl e
            | Inr data1D' \<Rightarrow> copy_row n row k (j + 1) data1D')
         else Inl (IndexOutOfRange j (length row)))
      else Inr data1D)"
  by pat_completeness auto
termination
  by (relation "measure (\<lambda>(n, row, k, j, data1D). nat (int (length row) - j))") auto

fun copy_rows :: "nat \<Rightarrow> dbl list list \<Rightarrow> dbl list \<Rightarrow> error + dbl list" where
  "copy_rows n [] data1D = Inr data1D"
| "copy_rows n (row # rows) data1D =
     bind_err (copy_row n row 0 0 data1D) (\<lambda>data1D. copy_rows n rows data1D)"

text \<open>Lines 547 to 562.\<close>

definition flatten_data :: "dbl list list \<Rightarrow> error + dbl list" where
  "flatten_data data =
     (if length data > 1 then
        bind_err (vec_get data 0) (\<lambda>data0.
          copy_rows (length data0) data (replicate (length data * length data0) (Fin 0)))
      else vec_get data 0)"

text \<open>
  Lines 578 to 584: \<^verbatim>\<open>labels\<close> gets \<^verbatim>\<open>data.size()\<close> elements, where \<^verbatim>\<open>data\<close> has one
  inner vector for each variable.
\<close>

definition repackage_labels :: "dbl list list \<Rightarrow> dbl list list \<Rightarrow> error + int list" where
  "repackage_labels data cluster_info =
     for_loop [0 ..  int (length data) - 1] (replicate (length data) 0) (\<lambda>i labels.
       bind_err (vec_get cluster_info 0) (\<lambda>arr.
       bind_err (vec_get arr i) (\<lambda>v.
       bind_err (int_of_dbl v) (\<lambda>l.
         vec_set labels i l))))"

text \<open>
  Lines 585 to 594: \<^verbatim>\<open>centers\<close> gets \<open>k\<close> empty inner vectors, and the loops assign
  \<^verbatim>\<open>centers[i][j]\<close> for \<open>j\<close> below the size of \<^verbatim>\<open>data[0]\<close>.
\<close>

definition assign_center ::
  "dbl list list \<Rightarrow> int \<Rightarrow> int \<Rightarrow> int \<Rightarrow> dbl list list \<Rightarrow> error + dbl list list" where
  "assign_center cluster_info k i j centers =
     bind_err (vec_get cluster_info 1) (\<lambda>arr.
     bind_err (vec_get arr (i * k + j)) (\<lambda>v.
     bind_err (vec_get centers i) (\<lambda>row.
     bind_err (vec_set row j v) (\<lambda>row'.
       vec_set centers i row'))))"

definition assign_center_row ::
  "dbl list list \<Rightarrow> dbl list list \<Rightarrow> int \<Rightarrow> int \<Rightarrow> dbl list list \<Rightarrow> error + dbl list list" where
  "assign_center_row data cluster_info k i centers =
     bind_err (vec_get data 0) (\<lambda>data0.
       for_loop [0 .. int (length data0) - 1] centers (assign_center cluster_info k i))"

definition repackage_centers ::
  "dbl list list \<Rightarrow> int \<Rightarrow> dbl list list \<Rightarrow> error + dbl list list" where
  "repackage_centers data k cluster_info =
     (if k < 0 then Inl (NegativeSize k)
      else for_loop [0 .. k - 1] (replicate (nat k) []) (assign_center_row data cluster_info k))"

definition weighted_kmeans ::
  "error + matlab_engine \<Rightarrow> dbl list list \<Rightarrow> dbl list \<Rightarrow> int
     \<Rightarrow> error + (dbl list list \<times> int list)" where
  "weighted_kmeans connectMATLAB data weights k =
     bind_err connectMATLAB (\<lambda>feval.
     bind_err (flatten_data data) (\<lambda>data1D.
     bind_err (vec_get data 0) (\<lambda>data0.
     bind_err (feval ''fkmeans'' 3
        [ArrD (length data0) (length data) data1D, ScalarI k, CharArr ''weight'',
         ArrD (length data0) 1 weights]) (\<lambda>cluster_info.
     bind_err (repackage_labels data cluster_info) (\<lambda>labels.
     bind_err (repackage_centers data k cluster_info) (\<lambda>centers.
       Inr (centers, labels)))))))"

subsection \<open>The refinement of the mask in \<^verbatim>\<open>get_ellipses\<close>\<close>

text \<open>\<^verbatim>\<open>std::sort\<close> on the three centre values, as insertions with \<open><\<close>.\<close>

fun insert_sorted :: "dbl \<Rightarrow> dbl list \<Rightarrow> dbl list" where
  "insert_sorted v [] = [v]"
| "insert_sorted v (u # us) = (if v < u then v # u # us else u # insert_sorted v us)"

definition std_sort :: "dbl list \<Rightarrow> dbl list" where
  "std_sort vs = foldr insert_sorted vs []"

text \<open>Lines 112 to 117: the lowest and the highest of the three centres.\<close>

definition center_limits :: "dbl list list \<Rightarrow> error + (dbl \<times> dbl)" where
  "center_limits centers =
     bind_err (vec_get centers 0) (\<lambda>c0. bind_err (vec_get c0 0) (\<lambda>v0.
     bind_err (vec_get centers 1) (\<lambda>c1. bind_err (vec_get c1 0) (\<lambda>v1.
     bind_err (vec_get centers 2) (\<lambda>c2. bind_err (vec_get c2 0) (\<lambda>v2.
       let center_vals = std_sort [v0, v1, v2]
       in Inr (center_vals ! 0, center_vals ! 2)))))))"

text \<open>
  Lines 119 to 140: the pixels of the refined mask. \<open>k\<close> counts the pixels of the mask met
  so far; the test of line 132 compares the centre of the pixel's cluster with the limits.
\<close>

fun refine_row ::
  "dbl list list \<Rightarrow> int list \<Rightarrow> dbl \<Rightarrow> dbl \<Rightarrow> byte list \<Rightarrow> int \<Rightarrow> error + (byte list \<times> int)" where
  "refine_row centers labels llim ulim [] k = Inr ([], k)"
| "refine_row centers labels llim ulim (p # ps) k =
     (if p \<noteq> 0 then
        bind_err (vec_get labels k) (\<lambda>l.
        bind_err (vec_get centers l) (\<lambda>c.
        bind_err (vec_get c 0) (\<lambda>v.
        bind_err (refine_row centers labels llim ulim ps (k + 1)) (\<lambda>(qs, k').
          Inr ((if v \<ge> llim \<and> v \<le> ulim then 1 else 0) # qs, k')))))
      else
        bind_err (refine_row centers labels llim ulim ps k) (\<lambda>(qs, k').
          Inr (0 # qs, k')))"

fun refine_rows ::
  "dbl list list \<Rightarrow> int list \<Rightarrow> dbl \<Rightarrow> dbl \<Rightarrow> byte list list \<Rightarrow> int \<Rightarrow> error + byte list list" where
  "refine_rows centers labels llim ulim [] k = Inr []"
| "refine_rows centers labels llim ulim (p # rows) k =
     bind_err (refine_row centers labels llim ulim p k) (\<lambda>(q, k').
     bind_err (refine_rows centers labels llim ulim rows k') (\<lambda>qs.
       Inr (q # qs)))"

definition refined_mask :: "byte list list \<Rightarrow> dbl list list \<Rightarrow> int list \<Rightarrow> error + byte list list" where
  "refined_mask annulus_mask centers labels =
     bind_err (center_limits centers) (\<lambda>(llim, ulim).
       refine_rows centers labels llim ulim annulus_mask 0)"

text \<open>The number of marked pixels in a row of a mask.\<close>

definition count_nonzero :: "byte list \<Rightarrow> nat" where
  "count_nonzero ps = length (filter (\<lambda>p. p \<noteq> 0) ps)"

text \<open>
  Lines 105 to 143, from the distances and weights on: the clustering, the refined mask
  and the second fit, which gets the refined mask.
\<close>

definition refit_ellipse ::
  "error + matlab_engine \<Rightarrow> byte list list \<Rightarrow> dbl list list \<Rightarrow> dbl list \<Rightarrow> dbl list
     \<Rightarrow> dbl \<Rightarrow> dbl \<Rightarrow> int \<Rightarrow> error + dbl list" where
  "refit_ellipse connectMATLAB annulus_mask annulus dists weights f0 thresh max_iter =
     bind_err (weighted_kmeans connectMATLAB [dists] weights 3) (\<lambda>(centers, labels).
     bind_err (refined_mask annulus_mask centers labels) (\<lambda>refined.
       hyper_renorm_ellipse connectMATLAB refined annulus f0 thresh max_iter))"

subsection \<open>The annular mask: \<^verbatim>\<open>create_annular_mask\<close>\<close>

text \<open>
  A \<^verbatim>\<open>cv::Mat\<close> is a header (the size, the type of the elements and a pointer to the
  pixels) that its copies share the pixels with. The pixel buffers of the masks live in a
  heap, a list of buffers whose positions are the addresses; a header with no pixels has
  no address. A new buffer goes to the end of the heap.
\<close>

datatype cvtype = CV_8UC1 | CV_32FC1

record mat_header =
  mat_rows :: int
  mat_cols :: int
  mat_type :: cvtype
  mat_data :: "nat option"

type_synonym heap = "byte list list list"

definition empty_mat :: mat_header where
  "empty_mat = \<lparr>mat_rows = 0, mat_cols = 0, mat_type = CV_8UC1, mat_data = None\<rparr>"

text \<open>
  \<^verbatim>\<open>Mat::create\<close>, which the assignment of \<^verbatim>\<open>cv::Mat::zeros(..)\<close> to a matrix
  calls: a matrix that has pixels of the size and type asked for keeps them, and with
  them the buffer that it shares with its copies; otherwise the matrix lets go of its
  buffer, which stays with the other matrices that hold it, and gets a new one when the
  size is not zero. The third component of the result tells whether a buffer was
  allocated. The assignment then sets every pixel to zero.
\<close>

definition mat_create ::
  "heap \<Rightarrow> mat_header \<Rightarrow> int \<Rightarrow> int \<Rightarrow> cvtype \<Rightarrow> error + (heap \<times> mat_header \<times> bool)" where
  "mat_create h m r c t =
     (if mat_data m \<noteq> None \<and> mat_rows m = r \<and> mat_cols m = c \<and> mat_type m = t
      then Inr (h, m, False)
      else if r < 0 then Inl (NegativeSize r)
      else if c < 0 then Inl (NegativeSize c)
      else if r * c = 0
      then Inr (h, \<lparr>mat_rows = r, mat_cols = c, mat_type = t, mat_data = None\<rparr>, False)
      else Inr (h @ [replicate (nat r) (replicate (nat c) 0)],
                \<lparr>mat_rows = r, mat_cols = c, mat_type = t, mat_data = Some (length h)\<rparr>,
                True))"

definition mat_pixels :: "heap \<Rightarrow> mat_header \<Rightarrow> byte list list" where
  "mat_pixels h m = (case mat_data m of None \<Rightarrow> [] | Some a \<Rightarrow> h ! a)"

definition mat_write :: "heap \<Rightarrow> mat_header \<Rightarrow> byte list list \<Rightarrow> heap" where
  "mat_write h m px = (case mat_data m of None \<Rightarrow> h | Some a \<Rightarrow> h[a := px])"

text \<open>
  The end of the scope of a local matrix: a buffer that was allocated for it, the last
  one of the heap, is freed; a buffer that it shares with the caller's matrix stays.
\<close>

definition mat_release :: "heap \<Rightarrow> mat_header \<Rightarrow> bool \<Rightarrow> heap" where
  "mat_release h m allocated =
     (if allocated then (case mat_data m of None \<Rightarrow> h | Some a \<Rightarrow> take a h) else h)"

definition countNonZero :: "byte list list \<Rightarrow> nat" where
  "countNonZero m = length (filter (\<lambda>p. p \<noteq> 0) (concat m))"

text \<open>
  Lines 160 to 172: the test for the pixel of row \<open>i\<close> and column \<open>j\<close>; \<open>sz\<close> is the
  parameter \<^verbatim>\<open>size\<close>. The root of the \<^verbatim>\<open>int\<close> is a \<^verbatim>\<open>double\<close>, the variable
  \<^verbatim>\<open>dist\<close> is a \<^verbatim>\<open>float\<close>, and the comparisons convert the radii to \<^verbatim>\<open>float\<close>.
\<close>

definition in_annulus :: "int \<Rightarrow> int \<Rightarrow> int \<Rightarrow> int \<Rightarrow> int \<Rightarrow> bool" where
  "in_annulus sz inner_rad outer_rad i j =
     (let origin_x = sz div 2;
          origin_y = sz div 2;
          dist = to_float (to_double (sqrt (real_of_int
                   ((i - origin_y) * (i - origin_y) + (j - origin_x) * (j - origin_x)))))
      in dist \<ge> to_float (real_of_int inner_rad) \<and> dist \<le> to_float (real_of_int outer_rad))"

text \<open>
  Lines 163 to 177. The pointer \<^verbatim>\<open>p\<close> of line 163 is declared outside the loop that
  runs under \<^verbatim>\<open>#pragma omp parallel for\<close>, so the threads share it: the store
  \<^verbatim>\<open>p[j] = val\<close> of the iteration \<open>(i, j)\<close> goes to the row that \<^verbatim>\<open>p\<close> addresses at
  that moment, which another thread may have set. A schedule gives that row for each
  iteration; without OpenMP, or with one thread, it is the row \<open>i\<close> itself. The pixel of
  row \<open>r\<close> and column \<open>c\<close> is marked when an iteration on column \<open>c\<close> that passes the
  test stores to row \<open>r\<close>; the other pixels are the zeros of line 157.
\<close>

type_synonym schedule = "int \<Rightarrow> int \<Rightarrow> int"

definition sequential :: schedule where
  "sequential = (\<lambda>i j. i)"

definition annular_mask_pixels ::
  "int \<Rightarrow> int \<Rightarrow> int \<Rightarrow> byte \<Rightarrow> schedule \<Rightarrow> byte list list" where
  "annular_mask_pixels sz inner_rad outer_rad val row_of =
     map (\<lambda>r. map (\<lambda>c. if list_ex (\<lambda>i. in_annulus sz inner_rad outer_rad i c \<and> row_of i c = r)
                              [0 .. sz - 1]
                      then val else 0)
                 [0 .. sz - 1])
         [0 .. sz - 1]"

text \<open>
  The function takes \<^verbatim>\<open>cv::Mat annulus\<close> by value and returns nothing: what it leaves
  behind is the heap. The parameter is a copy of the caller's header; the assignment of
  line 157 keeps its buffer or gives it a new one, the loops write to that buffer, and
  the return ends the scope of the parameter. From the size 65536 on, the sum of squares
  of line 171 exceeds the \<^verbatim>\<open>int\<close> of 32 bits for the pixels of a corner, which is
  undefined behaviour and an error here.
\<close>

definition create_annular_mask ::
  "schedule \<Rightarrow> heap \<Rightarrow> mat_header \<Rightarrow> int \<Rightarrow> int \<Rightarrow> int \<Rightarrow> byte \<Rightarrow> error + heap" where
  "create_annular_mask row_of h annulus sz inner_rad outer_rad val =
     bind_err (mat_create h annulus sz sz CV_8UC1) (\<lambda>(h, annulus, allocated).
       if 65536 \<le> sz then Inl IntOverflow
       else
         let h = mat_write h annulus (annular_mask_pixels sz inner_rad outer_rad val row_of)
         in Inr (mat_release h annulus allocated))"

text \<open>
  Lines 85, 86 and 101 of \<^verbatim>\<open>get_ellipses\<close>: the mask is declared, passed to
  \<^verbatim>\<open>create_annular_mask\<close> with the size \<^verbatim>\<open>2*est_rad[i][1]+1\<close>, computed in
  \<^verbatim>\<open>float\<close>, and the radii converted to \<^verbatim>\<open>int\<close>, and with the value 1 that the
  comment gives as the default, and used afterwards. The result is the heap and the
  header \<^verbatim>\<open>annulus_mask\<close> as the later statements see them.
\<close>

definition get_ellipses_annulus_mask ::
  "schedule \<Rightarrow> heap \<Rightarrow> dbl \<Rightarrow> dbl \<Rightarrow> error + (heap \<times> mat_header)" where
  "get_ellipses_annulus_mask row_of h est_rad0 est_rad1 =
     (let annulus_mask = empty_mat
      in bind_err (int_of_dbl (dbl_to_float (dbl_to_float (Fin 2 * est_rad1) + Fin 1)))
           (\<lambda>sz.
         bind_err (int_of_dbl est_rad0) (\<lambda>inner_rad.
         bind_err (int_of_dbl est_rad1) (\<lambda>outer_rad.
         bind_err (create_annular_mask row_of h annulus_mask sz inner_rad outer_rad 1)
           (\<lambda>h.
           Inr (h, annulus_mask))))))"

subsection \<open>Engines for the examples\<close>

text \<open>An engine whose fit returns the six coefficients of the unit circle.\<close>

definition six_engine :: matlab_engine where
  "six_engine name nout args = Inr [[Fin 1, Fin 0, Fin 1, Fin 0, Fin 0, Fin (- 1)]]"

text \<open>An engine that answers the fit of no points at all, and nothing else.\<close>

definition empty_fit_engine :: matlab_engine where
  "empty_fit_engine name nout args =
     (if name = ''hyper_renorm_ellipse'' \<and> nout = 1 \<and>
         args = [ArrD 0 1 [], ArrD 0 1 [], ArrD 0 1 [],
                 ScalarD (Fin 1), ScalarI 10, ScalarD (Fin 0)]
      then Inr [[Fin 1, Fin 2, Fin 3, Fin 4, Fin 5]] else Inl EngineError)"

text \<open>An engine that puts three samples into three clusters.\<close>

definition three_clusters :: matlab_engine where
  "three_clusters name nout args =
     Inr [[Fin 0, Fin 1, Fin 2], [Fin 1, Fin 2, Fin 3], []]"

subsection \<open>Lattice points in a disc\<close>

text \<open>
  Three notions for the proof of the pixel count of the annular mask. \<open>seg_area R t\<close> is
  the area between the x axis and the circle of radius \<open>R\<close> over the interval from \<open>0\<close>
  to \<open>t\<close>; its derivative is the height of the circle. \<open>row_le r y\<close> and \<open>row_lt r y\<close>
  count the points with integer coordinates on the row \<open>y\<close> that lie in the closed and in
  the open disc of radius \<open>r\<close> about the origin.
\<close>

definition seg_area :: "real \<Rightarrow> real \<Rightarrow> real" where
  "seg_area R t = (t * sqrt (R\<^sup>2 - t\<^sup>2) + R\<^sup>2 * arcsin (t / R)) / 2"

definition row_le :: "int \<Rightarrow> int \<Rightarrow> nat" where
  "row_le r y = card {x::int. x\<^sup>2 + y\<^sup>2 \<le> r\<^sup>2}"

definition row_lt :: "int \<Rightarrow> int \<Rightarrow> nat" where
  "row_lt r y = card {x::int. x\<^sup>2 + y\<^sup>2 < r\<^sup>2}"

section \<open>Properties\<close>

subsection \<open>Helper facts\<close>

lemma extrema_points_out_of_range: "extrema_points el = Inl (IndexOutOfRange 4 4)"
  by (simp add: extrema_points_def Let_def bind_err_def vec_set_def)

lemma discriminant_test:
  "(Fin 4 * Fin A * Fin C - Fin B * Fin B > Fin 0) = (4 * A * C - B\<^sup>2 > 0)"
  by (simp add: minus_dbl_def power2_eq_square)

lemma ellipse_points_from_conic_six:
  "ellipse_points_from_conic el [Fin A, Fin B, Fin C, D, E, F] =
     (if 4 * A * C - B\<^sup>2 > 0 then Inr (el\<lparr>is_ellipse := False\<rparr>)
      else Inl (IndexOutOfRange 4 4))"
  by (simp add: ellipse_points_from_conic_def bind_err_def vec_get_def
      extrema_points_out_of_range Let_def minus_dbl_def power2_eq_square)

lemma is_ellipse_false_iff:
  "(\<exists>r. ellipse_points_from_conic el [Fin A, Fin B, Fin C, D, E, F] = Inr r \<and> \<not> is_ellipse r)
     = (4 * A * C - B\<^sup>2 > 0)"
  by (simp add: ellipse_points_from_conic_six)

lemma conic_of_ellipse_axis_aligned:
  "conic_of_ellipse 0 0 2 1 0 = [Fin (1 / 4), Fin 0, Fin 1, Fin 0, Fin 0, Fin (- 1)]"
  by (simp add: conic_of_ellipse_def Let_def)

lemma rotation_angle_finite:
  "rotation_angle (Fin A) (Fin B) (Fin C) =
     (if A \<noteq> C then
        Fin (if arctan (B / (A - C)) < 0 then arctan (B / (A - C)) / 2 + pi / 4
             else arctan (B / (A - C)) / 2)
      else if 0 < B then Fin (pi / 4)
      else if B < 0 then Fin 0
      else NaN)"
  by (simp add: rotation_angle_def Let_def minus_dbl_def PI_def)

lemma angle_conic_to_ellipse:
  "angle (conic_to_ellipse el c0 c1 c2 c3 c4 c5) = rotation_angle c0 c1 c2"
  by (simp add: conic_to_ellipse_def Let_def)

text \<open>
  What the code records as the angle of a conic with finite coefficients and \<open>A \<noteq> C\<close>:
  half the arc tangent, with a quarter of \<open>\<pi>\<close> added when the arc tangent is negative;
  it lies in \<open>[0, \<pi>/4)\<close>.
\<close>

lemma recorded_angle_range:
  assumes "A \<noteq> C"
  shows "\<exists>t. angle (conic_to_ellipse el (Fin A) (Fin B) (Fin C) D E F) = Fin t
             \<and> t = (if arctan (B / (A - C)) < 0 then arctan (B / (A - C)) / 2 + pi / 4
                    else arctan (B / (A - C)) / 2)
             \<and> 0 \<le> t \<and> t < pi / 4"
proof -
  let ?q = "arctan (B / (A - C))"
  have lo: "- (pi / 2) < ?q" and hi: "?q < pi / 2"
    by (rule arctan_lbound, rule arctan_ubound)
  have "0 \<le> (if ?q < 0 then ?q / 2 + pi / 4 else ?q / 2)
        \<and> (if ?q < 0 then ?q / 2 + pi / 4 else ?q / 2) < pi / 4"
    using lo hi by auto
  then show ?thesis
    using assms by (simp add: angle_conic_to_ellipse rotation_angle_finite)
qed

text \<open>The fit returns a vector of 5 elements whenever it returns.\<close>

lemma store_params_length:
  "store_params ep k el = Inr v \<Longrightarrow> length v = length ep"
  by (induction el arbitrary: ep k)
     (auto simp: bind_err_def vec_set_def split: sum.splits if_splits)

lemma hyper_renorm_ellipse_length:
  "hyper_renorm_ellipse c msk weights f0 thresh max_iter = Inr v \<Longrightarrow> length v = 5"
  by (auto simp: hyper_renorm_ellipse_def bind_err_def split: sum.splits prod.splits
      dest: store_params_length)

text \<open>A mask without marked pixels gives empty vectors of positions and weights.\<close>

lemma package_row_zero:
  "\<forall>p\<in>set ps. p = 0 \<Longrightarrow> package_row i q j ps = Inr ([], [], [])"
  by (induction ps arbitrary: j) auto

lemma package_rows_zero:
  "\<forall>row\<in>set msk. \<forall>p\<in>set row. p = 0 \<Longrightarrow> package_rows i msk weights = Inr ([], [], [])"
  by (induction msk arbitrary: i) (auto simp: package_row_zero bind_err_def)

text \<open>
  What \<^verbatim>\<open>weighted_kmeans\<close> returns, when it returns: as many labels as \<^verbatim>\<open>data\<close> has
  variables, and \<open>k\<close> centres without coordinates, since every assignment to
  \<^verbatim>\<open>centers[i][j]\<close> is outside the empty inner vector.
\<close>

lemma for_loop_length:
  assumes "\<And>i s s'. body i s = Inr s' \<Longrightarrow> length s' = length s"
  shows "for_loop is s body = Inr r \<Longrightarrow> length r = length s"
proof (induction "is" arbitrary: s)
  case Nil
  then show ?case by simp
next
  case (Cons i "is")
  then show ?case
    using assms by (fastforce simp: bind_err_def split: sum.splits)
qed

lemma repackage_labels_length:
  "repackage_labels data cluster_info = Inr labels \<Longrightarrow> length labels = length data"
  unfolding repackage_labels_def
  by (drule for_loop_length [rotated])
     (auto simp: bind_err_def vec_set_def split: sum.splits if_splits)

lemma assign_center_fails: "\<exists>e. assign_center cluster_info k i j (replicate n []) = Inl e"
  by (auto simp: assign_center_def bind_err_def vec_get_def vec_set_def split: sum.splits)

lemma assign_center_row_empty:
  assumes "assign_center_row data cluster_info k i (replicate n []) = Inr r"
  shows "r = replicate n []"
proof -
  obtain data0 where d: "vec_get data 0 = Inr data0"
    and l: "for_loop [0 .. int (length data0) - 1] (replicate n [])
              (assign_center cluster_info k i) = Inr r"
    using assms by (auto simp: assign_center_row_def bind_err_def split: sum.splits)
  show ?thesis
  proof (cases "[0 .. int (length data0) - 1]")
    case Nil
    then show ?thesis using l by simp
  next
    case (Cons j js)
    obtain e where "assign_center cluster_info k i j (replicate n []) = Inl e"
      using assign_center_fails by blast
    then show ?thesis
      using l unfolding Cons by (simp add: bind_err_def)
  qed
qed

lemma centers_loop_empty:
  "for_loop is (replicate n []) (assign_center_row data cluster_info k) = Inr r
     \<Longrightarrow> r = replicate n []"
proof (induction "is")
  case Nil
  then show ?case by simp
next
  case (Cons i "is")
  then show ?case
    by (auto simp: bind_err_def split: sum.splits dest!: assign_center_row_empty)
qed

lemma weighted_kmeans_result:
  assumes "weighted_kmeans connectMATLAB data weights k = Inr (centers, labels)"
  shows "length labels = length data \<and> centers = replicate (nat k) []"
  using assms
  by (auto simp: weighted_kmeans_def bind_err_def repackage_centers_def
      split: sum.splits if_splits dest: repackage_labels_length centers_loop_empty)

text \<open>
  The refined mask, for three centres with finite first coordinates and labels that name
  them: every marked pixel of the mask is marked again, whatever its cluster.
\<close>

lemma center_limits_three:
  "\<exists>lo hi. center_limits [Fin a # ra, Fin b # rb, Fin c # rc] = Inr (Fin lo, Fin hi)
     \<and> lo \<le> a \<and> lo \<le> b \<and> lo \<le> c \<and> a \<le> hi \<and> b \<le> hi \<and> c \<le> hi"
  by (simp add: center_limits_def std_sort_def bind_err_def vec_get_def eval_nat_numeral)

lemma refine_row_keeps_all:
  assumes cs: "centers = [Fin a # ra, Fin b # rb, Fin c # rc]"
    and lim: "lo \<le> a" "lo \<le> b" "lo \<le> c" "a \<le> hi" "b \<le> hi" "c \<le> hi"
    and ls: "\<forall>l\<in>set labels. 0 \<le> l \<and> l < 3"
  shows "0 \<le> k \<Longrightarrow> nat k + count_nonzero ps \<le> length labels \<Longrightarrow>
         refine_row centers labels (Fin lo) (Fin hi) ps k =
           Inr (map (\<lambda>p. if p \<noteq> 0 then 1 else 0) ps, k + int (count_nonzero ps))"
proof (induction ps arbitrary: k)
  case Nil
  then show ?case by (simp add: count_nonzero_def)
next
  case (Cons p ps)
  show ?case
  proof (cases "p = 0")
    case True
    then show ?thesis
      using Cons by (simp add: count_nonzero_def bind_err_def)
  next
    case False
    have k: "nat k < length labels"
      using Cons.prems False by (simp add: count_nonzero_def)
    then have "labels ! nat k \<in> set labels" by simp
    then have l: "0 \<le> labels ! nat k" "labels ! nat k < 3"
      using ls by auto
    then have "labels ! nat k = 0 \<or> labels ! nat k = 1 \<or> labels ! nat k = 2"
      by arith
    then obtain v r where v: "vec_get centers (labels ! nat k) = Inr (Fin v # r)"
        "lo \<le> v" "v \<le> hi"
      using lim by (auto simp: cs vec_get_def)
    have g: "vec_get labels k = Inr (labels ! nat k)"
      using k Cons.prems(1) by (simp add: vec_get_def)
    have ih: "refine_row centers labels (Fin lo) (Fin hi) ps (k + 1) =
           Inr (map (\<lambda>p. if p \<noteq> 0 then 1 else 0) ps, k + 1 + int (count_nonzero ps))"
      using Cons.prems False by (intro Cons.IH) (auto simp: count_nonzero_def)
    have "vec_get (Fin v # r) 0 = Inr (Fin v)"
      by (simp add: vec_get_def)
    then show ?thesis
      using False v g ih by (simp add: bind_err_def count_nonzero_def)
  qed
qed

lemma refine_rows_keeps_all:
  assumes cs: "centers = [Fin a # ra, Fin b # rb, Fin c # rc]"
    and lim: "lo \<le> a" "lo \<le> b" "lo \<le> c" "a \<le> hi" "b \<le> hi" "c \<le> hi"
    and ls: "\<forall>l\<in>set labels. 0 \<le> l \<and> l < 3"
  shows "0 \<le> k \<Longrightarrow> nat k + count_nonzero (concat m) \<le> length labels \<Longrightarrow>
         refine_rows centers labels (Fin lo) (Fin hi) m k =
           Inr (map (map (\<lambda>p. if p \<noteq> 0 then 1 else 0)) m)"
proof (induction m arbitrary: k)
  case Nil
  then show ?case by simp
next
  case (Cons row m)
  have c: "count_nonzero (concat (row # m)) = count_nonzero row + count_nonzero (concat m)"
    by (simp add: count_nonzero_def)
  have r: "refine_row centers labels (Fin lo) (Fin hi) row k =
           Inr (map (\<lambda>p. if p \<noteq> 0 then 1 else 0) row, k + int (count_nonzero row))"
    using Cons.prems c by (intro refine_row_keeps_all [OF cs lim ls]) auto
  have "refine_rows centers labels (Fin lo) (Fin hi) m (k + int (count_nonzero row)) =
           Inr (map (map (\<lambda>p. if p \<noteq> 0 then 1 else 0)) m)"
    using Cons.prems c by (intro Cons.IH) (auto simp: nat_add_distrib)
  then show ?case
    using r by (simp add: bind_err_def)
qed

lemma refined_mask_keeps_all:
  assumes "\<forall>l\<in>set labels. 0 \<le> l \<and> l < 3"
    and "count_nonzero (concat m) \<le> length labels"
  shows "refined_mask m [Fin a # ra, Fin b # rb, Fin c # rc] labels =
           Inr (map (map (\<lambda>p. if p \<noteq> 0 then 1 else 0)) m)"
proof -
  obtain lo hi where
    "center_limits [Fin a # ra, Fin b # rb, Fin c # rc] = Inr (Fin lo, Fin hi)"
    "lo \<le> a" "lo \<le> b" "lo \<le> c" "a \<le> hi" "b \<le> hi" "c \<le> hi"
    using center_limits_three by blast
  then show ?thesis
    using assms refine_rows_keeps_all [of _ a ra b rb c rc lo hi labels 0 m]
    by (simp add: refined_mask_def bind_err_def)
qed

text \<open>
  With the centres that \<^verbatim>\<open>weighted_kmeans\<close> returns, lines 105 to 143 do not reach the
  second fit: \<^verbatim>\<open>centers[0][0]\<close> on line 114 is outside an empty vector.
\<close>

lemma center_limits_empty: "\<exists>e. center_limits (replicate n []) = Inl e"
  by (cases n) (auto simp: center_limits_def bind_err_def vec_get_def)

lemma refit_ellipse_never_returns:
  "\<exists>e. refit_ellipse connectMATLAB annulus_mask annulus dists weights f0 thresh max_iter = Inl e"
proof (cases "weighted_kmeans connectMATLAB [dists] weights 3")
  case (Inl e)
  then show ?thesis by (simp add: refit_ellipse_def bind_err_def)
next
  case (Inr r)
  obtain centers labels where r: "r = (centers, labels)" by (cases r)
  then have "centers = replicate (nat 3) []"
    using Inr weighted_kmeans_result by blast
  then obtain e where "center_limits centers = Inl e"
    using center_limits_empty by blast
  then show ?thesis
    using Inr r by (simp add: refit_ellipse_def bind_err_def refined_mask_def)
qed

text \<open>
  What a call of \<^verbatim>\<open>create_annular_mask\<close> leaves behind: when the matrix passed has
  pixels of the size asked for and of type \<^verbatim>\<open>CV_8UC1\<close>, its pixels are the annulus
  afterwards; otherwise the heap is what it was.
\<close>

lemma create_annular_mask_result:
  "create_annular_mask row_of h annulus sz inner_rad outer_rad val =
     (if sz < 0 \<and> (mat_data annulus = None \<or> mat_rows annulus \<noteq> sz
           \<or> mat_cols annulus \<noteq> sz \<or> mat_type annulus \<noteq> CV_8UC1)
      then Inl (NegativeSize sz)
      else if 65536 \<le> sz then Inl IntOverflow
      else if mat_data annulus \<noteq> None \<and> mat_rows annulus = sz \<and> mat_cols annulus = sz
         \<and> mat_type annulus = CV_8UC1
      then Inr (mat_write h annulus (annular_mask_pixels sz inner_rad outer_rad val row_of))
      else Inr h)"
  by (simp add: create_annular_mask_def mat_create_def mat_write_def mat_release_def
      bind_err_def)

text \<open>
  The pixel count of the annular mask when the loop runs sequentially and the radii are
  below 2048. The area under the circle bounds the sum of the
  heights of the circle at the integers from both sides (by the mean value theorem), the
  heights bound the number of lattice points on each row, and the marked pixels of the
  mask are the lattice points of the closed disc of the outer radius that are not in the
  open disc of the inner radius.
\<close>

lemma seg_area_deriv:
  assumes "0 < R" "- R < t" "t < R"
  shows "(seg_area R has_real_derivative sqrt (R\<^sup>2 - t\<^sup>2)) (at t)"
proof -
  have "\<bar>t\<bar> < R" using assms by simp
  then have "\<bar>t\<bar>\<^sup>2 < R\<^sup>2"
    by (intro power_strict_mono) auto
  then have t2: "t\<^sup>2 < R\<^sup>2" by simp
  then have pos: "0 < R\<^sup>2 - t\<^sup>2" by simp
  have q: "- 1 < t / R" "t / R < 1"
    using assms by (simp_all add: field_simps)
  have s: "sqrt (1 - (t / R)\<^sup>2) = sqrt (R\<^sup>2 - t\<^sup>2) / R"
  proof -
    have "1 - (t / R)\<^sup>2 = (R\<^sup>2 - t\<^sup>2) / R\<^sup>2"
      using assms by (simp add: field_simps power2_eq_square)
    then show ?thesis
      using assms by (simp add: real_sqrt_divide)
  qed
  let ?d = "(1 * sqrt (R\<^sup>2 - t\<^sup>2) + t * ((0 - 2 * t) * (inverse (sqrt (R\<^sup>2 - t\<^sup>2)) / 2))
            + R\<^sup>2 * (inverse (sqrt (1 - (t / R)\<^sup>2)) * (1 / R))) / 2"
  have D: "((\<lambda>t. (t * sqrt (R\<^sup>2 - t\<^sup>2) + R\<^sup>2 * arcsin (t / R)) / 2)
             has_real_derivative ?d) (at t)"
    using pos q by (auto intro!: derivative_eq_intros)
  have E: "?d = sqrt (R\<^sup>2 - t\<^sup>2)"
  proof -
    let ?s = "sqrt (R\<^sup>2 - t\<^sup>2)"
    have sp: "0 < ?s" using pos by simp
    have ss: "?s * ?s = R\<^sup>2 - t\<^sup>2" using pos by simp
    have "(1 * ?s + t * ((0 - 2 * t) * (inverse ?s / 2)) + R\<^sup>2 * (inverse (?s / R) * (1 / R))) / 2
          = (?s + (R\<^sup>2 - t\<^sup>2) / ?s) / 2"
      using sp assms by (simp add: field_simps power2_eq_square)
    also have "(R\<^sup>2 - t\<^sup>2) / ?s = ?s"
      using sp ss by (simp add: field_simps)
    finally show ?thesis unfolding s by simp
  qed
  show ?thesis
    unfolding seg_area_def [abs_def] using D unfolding E .
qed

lemma seg_area_cont:
  assumes "0 < R"
  shows "continuous_on {- R .. R} (seg_area R)"
  unfolding seg_area_def [abs_def]
  using assms by (intro continuous_intros) (auto simp: field_simps abs_le_square_iff [symmetric] abs_le_iff)


lemma seg_area_step:
  assumes "0 < R" "0 \<le> a" "a < b" "b \<le> R"
  shows "(b - a) * sqrt (R\<^sup>2 - b\<^sup>2) \<le> seg_area R b - seg_area R a"
    and "seg_area R b - seg_area R a \<le> (b - a) * sqrt (R\<^sup>2 - a\<^sup>2)"
proof -
  have c: "continuous_on {a .. b} (seg_area R)"
    using assms by (intro continuous_on_subset [OF seg_area_cont]) auto
  have d: "seg_area R differentiable (at x)" if "a < x" "x < b" for x
  proof -
    have "(seg_area R has_real_derivative sqrt (R\<^sup>2 - x\<^sup>2)) (at x)"
      using assms that by (intro seg_area_deriv) auto
    then show ?thesis
      unfolding real_differentiable_def by blast
  qed
  obtain l z where z: "a < z" "z < b" "DERIV (seg_area R) z :> l"
    and e: "seg_area R b - seg_area R a = (b - a) * l"
    using MVT [OF \<open>a < b\<close> c d] by blast
  have "DERIV (seg_area R) z :> sqrt (R\<^sup>2 - z\<^sup>2)"
    using assms z by (intro seg_area_deriv) auto
  then have l: "l = sqrt (R\<^sup>2 - z\<^sup>2)"
    using z(3) DERIV_unique by blast
  have "a\<^sup>2 \<le> z\<^sup>2" "z\<^sup>2 \<le> b\<^sup>2"
    using assms z by (auto intro!: power_mono)
  then have "sqrt (R\<^sup>2 - b\<^sup>2) \<le> l" "l \<le> sqrt (R\<^sup>2 - a\<^sup>2)"
    unfolding l by auto
  then show "(b - a) * sqrt (R\<^sup>2 - b\<^sup>2) \<le> seg_area R b - seg_area R a"
    and "seg_area R b - seg_area R a \<le> (b - a) * sqrt (R\<^sup>2 - a\<^sup>2)"
    unfolding e using \<open>a < b\<close> by (auto intro!: mult_left_mono)
qed

lemma seg_area_ends:
  assumes "0 < R"
  shows "seg_area R 0 = 0" "seg_area R R = pi * R\<^sup>2 / 4"
  using assms by (simp_all add: seg_area_def)

lemma chord_sum_upper:
  "(\<Sum>k<n. sqrt ((real n)\<^sup>2 - (real (Suc k))\<^sup>2)) \<le> pi * (real n)\<^sup>2 / 4"
proof (cases "n = 0")
  case True
  then show ?thesis by simp
next
  case False
  then have R: "0 < real n" by simp
  have "(\<Sum>k<n. sqrt ((real n)\<^sup>2 - (real (Suc k))\<^sup>2))
        \<le> (\<Sum>k<n. seg_area (real n) (real (Suc k)) - seg_area (real n) (real k))"
  proof (rule sum_mono)
    fix k assume "k \<in> {..<n}"
    then have "real (Suc k) \<le> real n" by simp
    then show "sqrt ((real n)\<^sup>2 - (real (Suc k))\<^sup>2)
        \<le> seg_area (real n) (real (Suc k)) - seg_area (real n) (real k)"
      using seg_area_step(1) [OF R, of "real k" "real (Suc k)"] by simp
  qed
  also have "\<dots> = seg_area (real n) (real n) - seg_area (real n) (real 0)"
    by (rule sum_lessThan_telescope)
  finally show ?thesis
    using seg_area_ends [OF R] by simp
qed

lemma chord_sum_lower:
  "pi * (real n)\<^sup>2 / 4 \<le> (\<Sum>k<n. sqrt ((real n)\<^sup>2 - (real k)\<^sup>2))"
proof (cases "n = 0")
  case True
  then show ?thesis by simp
next
  case False
  then have R: "0 < real n" by simp
  have "(\<Sum>k<n. seg_area (real n) (real (Suc k)) - seg_area (real n) (real k))
        \<le> (\<Sum>k<n. sqrt ((real n)\<^sup>2 - (real k)\<^sup>2))"
  proof (rule sum_mono)
    fix k assume "k \<in> {..<n}"
    then have "real (Suc k) \<le> real n" by simp
    then show "seg_area (real n) (real (Suc k)) - seg_area (real n) (real k)
        \<le> sqrt ((real n)\<^sup>2 - (real k)\<^sup>2)"
      using seg_area_step(2) [OF R, of "real k" "real (Suc k)"] by simp
  qed
  moreover have "(\<Sum>k<n. seg_area (real n) (real (Suc k)) - seg_area (real n) (real k))
      = seg_area (real n) (real n) - seg_area (real n) (real 0)"
    by (rule sum_lessThan_telescope)
  ultimately show ?thesis
    using seg_area_ends [OF R] by simp
qed


lemma abs_le_sqrt_iff:
  fixes x :: int and m :: int
  assumes "0 \<le> m"
  shows "x\<^sup>2 \<le> m \<longleftrightarrow> \<bar>real_of_int x\<bar> \<le> sqrt (real_of_int m)"
proof -
  have "x\<^sup>2 \<le> m \<longleftrightarrow> (real_of_int x)\<^sup>2 \<le> real_of_int m"
    by (metis of_int_le_iff of_int_power)
  also have "\<dots> \<longleftrightarrow> \<bar>real_of_int x\<bar> \<le> sqrt (real_of_int m)"
    by (metis real_sqrt_abs real_sqrt_le_iff)
  finally show ?thesis .
qed

lemma abs_less_sqrt_iff:
  fixes x :: int and m :: int
  assumes "0 \<le> m"
  shows "x\<^sup>2 < m \<longleftrightarrow> \<bar>real_of_int x\<bar> < sqrt (real_of_int m)"
proof -
  have "x\<^sup>2 < m \<longleftrightarrow> (real_of_int x)\<^sup>2 < real_of_int m"
    by (metis of_int_less_iff of_int_power)
  also have "\<dots> \<longleftrightarrow> \<bar>real_of_int x\<bar> < sqrt (real_of_int m)"
    by (metis real_sqrt_abs real_sqrt_less_iff)
  finally show ?thesis .
qed

lemma squares_le_finite: "finite {x::int. x\<^sup>2 \<le> m}"
proof (rule finite_subset)
  show "{x::int. x\<^sup>2 \<le> m} \<subseteq> {- \<bar>m\<bar> .. \<bar>m\<bar>}"
  proof
    fix x :: int assume "x \<in> {x. x\<^sup>2 \<le> m}"
    then have "x\<^sup>2 \<le> m" by simp
    moreover have "\<bar>x\<bar> \<le> x\<^sup>2"
      using self_le_power [of "\<bar>x\<bar>" 2] by (cases "x = 0") auto
    ultimately show "x \<in> {- \<bar>m\<bar> .. \<bar>m\<bar>}" by auto
  qed
qed simp

lemma card_squares_le:
  fixes m :: int
  assumes "0 \<le> m"
  shows "real (card {x::int. x\<^sup>2 \<le> m}) \<le> 2 * sqrt (real_of_int m) + 1"
proof -
  let ?s = "\<lfloor>sqrt (real_of_int m)\<rfloor>"
  have s0: "0 \<le> ?s" using assms by simp
  have "{x::int. x\<^sup>2 \<le> m} \<subseteq> {- ?s .. ?s}"
  proof
    fix x :: int assume "x \<in> {x. x\<^sup>2 \<le> m}"
    then have "\<bar>real_of_int x\<bar> \<le> sqrt (real_of_int m)"
      using abs_le_sqrt_iff [OF assms] by simp
    then have "real_of_int \<bar>x\<bar> \<le> sqrt (real_of_int m)" by simp
    then have "\<bar>x\<bar> \<le> ?s" by (simp only: le_floor_iff)
    then show "x \<in> {- ?s .. ?s}" by auto
  qed
  then have "card {x::int. x\<^sup>2 \<le> m} \<le> card {- ?s .. ?s}"
    by (intro card_mono) auto
  also have "\<dots> = nat (2 * ?s + 1)" by simp
  finally have "real (card {x::int. x\<^sup>2 \<le> m}) \<le> real (nat (2 * ?s + 1))"
    by simp
  also have "\<dots> = 2 * real_of_int ?s + 1"
    using s0 by simp
  also have "\<dots> \<le> 2 * sqrt (real_of_int m) + 1"
    by simp
  finally show ?thesis .
qed

lemma card_squares_lt:
  fixes m :: int
  assumes "0 < m"
  shows "2 * sqrt (real_of_int m) - 1 \<le> real (card {x::int. x\<^sup>2 < m})"
proof -
  let ?c = "\<lceil>sqrt (real_of_int m)\<rceil>"
  have "0 < sqrt (real_of_int m)" using assms by simp
  then have c1: "1 \<le> ?c" by (simp add: ceiling_le_iff [symmetric] less_ceiling_iff [symmetric])
  have fin: "finite {x::int. x\<^sup>2 < m}"
    by (rule finite_subset [OF _ squares_le_finite [of m]]) auto
  have "{- (?c - 1) .. ?c - 1} \<subseteq> {x::int. x\<^sup>2 < m}"
  proof
    fix x :: int assume "x \<in> {- (?c - 1) .. ?c - 1}"
    then have "\<bar>x\<bar> < ?c" by auto
    then have "real_of_int \<bar>x\<bar> < sqrt (real_of_int m)"
      by (simp only: less_ceiling_iff)
    then show "x \<in> {x. x\<^sup>2 < m}"
      using abs_less_sqrt_iff [of m x] assms by simp
  qed
  then have "card {- (?c - 1) .. ?c - 1} \<le> card {x::int. x\<^sup>2 < m}"
    using fin by (intro card_mono)
  moreover have "card {- (?c - 1) .. ?c - 1} = nat (2 * ?c - 1)"
    by simp
  ultimately have "real (nat (2 * ?c - 1)) \<le> real (card {x::int. x\<^sup>2 < m})"
    by simp
  moreover have "real (nat (2 * ?c - 1)) = 2 * real_of_int ?c - 1"
    using c1 by simp
  moreover have "sqrt (real_of_int m) \<le> real_of_int ?c"
    by simp
  ultimately show ?thesis by linarith
qed


lemma sum_symmetric_rows:
  fixes g :: "int \<Rightarrow> real"
  shows "(\<Sum>y\<in>{- int n .. int n}. g y) = g 0 + (\<Sum>k<n. g (int (Suc k)) + g (- int (Suc k)))"
proof (induction n)
  case 0
  then show ?case by simp
next
  case (Suc n)
  have "{- int (Suc n) .. int (Suc n)}
        = insert (int (Suc n)) (insert (- int (Suc n)) {- int n .. int n})"
    by auto
  then have "(\<Sum>y\<in>{- int (Suc n) .. int (Suc n)}. g y)
        = g (int (Suc n)) + (g (- int (Suc n)) + (\<Sum>y\<in>{- int n .. int n}. g y))"
    by simp
  then show ?case
    using Suc by simp
qed

lemma row_le_bound:
  assumes "\<bar>y\<bar> \<le> r"
  shows "real (row_le r y) \<le> 2 * sqrt ((real_of_int r)\<^sup>2 - (real_of_int y)\<^sup>2) + 1"
proof -
  have "\<bar>y\<bar>\<^sup>2 \<le> r\<^sup>2"
    using assms by (intro power_mono) auto
  then have "y\<^sup>2 \<le> r\<^sup>2" by simp
  then have m: "0 \<le> r\<^sup>2 - y\<^sup>2" by simp
  have "{x::int. x\<^sup>2 + y\<^sup>2 \<le> r\<^sup>2} = {x. x\<^sup>2 \<le> r\<^sup>2 - y\<^sup>2}" by auto
  then show ?thesis
    using card_squares_le [OF m] by (simp add: row_le_def)
qed

lemma row_le_outside:
  assumes "0 \<le> r" "r < \<bar>y\<bar>"
  shows "row_le r y = 0"
proof -
  have "r\<^sup>2 < \<bar>y\<bar>\<^sup>2"
    using assms by (intro power_strict_mono) auto
  then have "r\<^sup>2 < y\<^sup>2" by simp
  moreover have "0 \<le> x\<^sup>2" for x :: int by simp
  ultimately have "{x::int. x\<^sup>2 + y\<^sup>2 \<le> r\<^sup>2} = {}"
    by (auto simp: not_le intro: add_nonneg_pos less_le_trans)
  then show ?thesis by (simp add: row_le_def)
qed

lemma row_lt_bound:
  assumes "\<bar>y\<bar> < r"
  shows "2 * sqrt ((real_of_int r)\<^sup>2 - (real_of_int y)\<^sup>2) - 1 \<le> real (row_lt r y)"
proof -
  have "\<bar>y\<bar>\<^sup>2 < r\<^sup>2"
    using assms by (intro power_strict_mono) auto
  then have "y\<^sup>2 < r\<^sup>2" by simp
  then have m: "0 < r\<^sup>2 - y\<^sup>2" by simp
  have "{x::int. x\<^sup>2 + y\<^sup>2 < r\<^sup>2} = {x. x\<^sup>2 < r\<^sup>2 - y\<^sup>2}" by auto
  then show ?thesis
    using card_squares_lt [OF m] by (simp add: row_lt_def)
qed

lemma row_lt_le: "row_lt r y \<le> row_le r y"
  unfolding row_lt_def row_le_def
proof (rule card_mono)
  have "{x::int. x\<^sup>2 + y\<^sup>2 \<le> r\<^sup>2} = {x. x\<^sup>2 \<le> r\<^sup>2 - y\<^sup>2}" by auto
  then show "finite {x::int. x\<^sup>2 + y\<^sup>2 \<le> r\<^sup>2}"
    using squares_le_finite by simp
qed auto


lemma disk_rows_upper:
  fixes n :: nat and h :: int
  assumes "int n \<le> h"
  shows "(\<Sum>y\<in>{- h .. h}. real (row_le (int n) y)) \<le> pi * (real n)\<^sup>2 + 4 * real n + 1"
proof -
  let ?g = "\<lambda>y. real (row_le (int n) y)"
  let ?f = "\<lambda>k. sqrt ((real n)\<^sup>2 - (real (Suc k))\<^sup>2)"
  have "(\<Sum>y\<in>{- h .. h}. ?g y) = (\<Sum>y\<in>{- int n .. int n}. ?g y)"
  proof (rule sum.mono_neutral_right)
    show "\<forall>y\<in>{- h .. h} - {- int n .. int n}. ?g y = 0"
      by (auto intro!: row_le_outside)
  qed (use assms in auto)
  also have "\<dots> = ?g 0 + (\<Sum>k<n. ?g (int (Suc k)) + ?g (- int (Suc k)))"
    by (rule sum_symmetric_rows)
  also have "\<dots> \<le> (2 * real n + 1) + (\<Sum>k<n. 4 * ?f k + 2)"
  proof (rule add_mono)
    show "?g 0 \<le> 2 * real n + 1"
      using row_le_bound [of 0 "int n"] by simp
    show "(\<Sum>k<n. ?g (int (Suc k)) + ?g (- int (Suc k))) \<le> (\<Sum>k<n. 4 * ?f k + 2)"
    proof (rule sum_mono)
      fix k assume "k \<in> {..<n}"
      then have k: "\<bar>int (Suc k)\<bar> \<le> int n" "\<bar>- int (Suc k)\<bar> \<le> int n" by auto
      have sq: "(real_of_int (- int (Suc k)))\<^sup>2 = (real (Suc k))\<^sup>2"
        "(real_of_int (int (Suc k)))\<^sup>2 = (real (Suc k))\<^sup>2"
        "real_of_int (int n) = real n"
        by (simp_all only: of_int_minus of_int_of_nat_eq power2_minus)
      have "?g (int (Suc k)) \<le> 2 * ?f k + 1"
        using row_le_bound [OF k(1)] unfolding sq .
      moreover have "?g (- int (Suc k)) \<le> 2 * ?f k + 1"
        using row_le_bound [OF k(2)] unfolding sq .
      ultimately show "?g (int (Suc k)) + ?g (- int (Suc k)) \<le> 4 * ?f k + 2"
        by linarith
    qed
  qed
  also have "\<dots> = 4 * real n + 1 + 4 * (\<Sum>k<n. ?f k)"
    by (simp add: sum.distrib sum_distrib_left)
  also have "\<dots> \<le> 4 * real n + 1 + 4 * (pi * (real n)\<^sup>2 / 4)"
    using chord_sum_upper [of n] by (intro add_left_mono mult_left_mono) auto
  finally show ?thesis by simp
qed

lemma disk_rows_lower:
  fixes n :: nat and h :: int
  assumes "0 < n" "int n - 1 \<le> h"
  shows "pi * (real n)\<^sup>2 - 4 * real n + 1 \<le> (\<Sum>y\<in>{- h .. h}. real (row_lt (int n) y))"
proof -
  let ?g = "\<lambda>y. real (row_lt (int n) y)"
  let ?f = "\<lambda>k. sqrt ((real n)\<^sup>2 - (real (Suc k))\<^sup>2)"
  obtain m where n: "n = Suc m"
    using assms(1) by (cases n) auto
  have "pi * (real n)\<^sup>2 / 4 \<le> (\<Sum>k<Suc m. sqrt ((real n)\<^sup>2 - (real k)\<^sup>2))"
    using chord_sum_lower [of n] n by simp
  also have "\<dots> = real n + (\<Sum>k<m. ?f k)"
    by (subst sum.lessThan_Suc_shift) simp
  finally have T: "pi * (real n)\<^sup>2 / 4 - real n \<le> (\<Sum>k<m. ?f k)"
    by simp
  have "(2 * real n - 1) + (\<Sum>k<m. 4 * ?f k - 2)
        \<le> ?g 0 + (\<Sum>k<m. ?g (int (Suc k)) + ?g (- int (Suc k)))"
  proof (rule add_mono)
    show "2 * real n - 1 \<le> ?g 0"
      using row_lt_bound [of 0 "int n"] assms(1) by simp
    show "(\<Sum>k<m. 4 * ?f k - 2) \<le> (\<Sum>k<m. ?g (int (Suc k)) + ?g (- int (Suc k)))"
    proof (rule sum_mono)
      fix k assume "k \<in> {..<m}"
      then have k: "\<bar>int (Suc k)\<bar> < int n" "\<bar>- int (Suc k)\<bar> < int n"
        using n by auto
      have sq: "(real_of_int (- int (Suc k)))\<^sup>2 = (real (Suc k))\<^sup>2"
        "(real_of_int (int (Suc k)))\<^sup>2 = (real (Suc k))\<^sup>2"
        "real_of_int (int n) = real n"
        by (simp_all only: of_int_minus of_int_of_nat_eq power2_minus)
      have "2 * ?f k - 1 \<le> ?g (int (Suc k))"
        using row_lt_bound [OF k(1)] unfolding sq .
      moreover have "2 * ?f k - 1 \<le> ?g (- int (Suc k))"
        using row_lt_bound [OF k(2)] unfolding sq .
      ultimately show "4 * ?f k - 2 \<le> ?g (int (Suc k)) + ?g (- int (Suc k))"
        by linarith
    qed
  qed
  also have "\<dots> = (\<Sum>y\<in>{- int m .. int m}. ?g y)"
    by (rule sum_symmetric_rows [symmetric])
  also have "\<dots> \<le> (\<Sum>y\<in>{- h .. h}. ?g y)"
    using assms(2) n by (intro sum_mono2) auto
  finally have "(2 * real n - 1) + (\<Sum>k<m. 4 * ?f k - 2) \<le> (\<Sum>y\<in>{- h .. h}. ?g y)" .
  moreover have "(\<Sum>k<m. 4 * ?f k - 2) = 4 * (\<Sum>k<m. ?f k) - 2 * real m"
    by (simp add: sum_subtractf sum_distrib_left)
  moreover have "real m = real n - 1"
    using n by simp
  ultimately show ?thesis
    using T by linarith
qed


text \<open>
  Rounding to a floating-point format does not cross a number of the format: for radii
  up to 2047 the comparisons of the rounded root with the radii are comparisons of
  integers.
\<close>

lemma round_even_ge: "of_int k \<le> y \<Longrightarrow> k \<le> round_even y"
proof -
  assume "of_int k \<le> y"
  then have "k \<le> \<lfloor>y\<rfloor>" by (simp add: le_floor_iff)
  then show ?thesis by (auto simp: round_even_def Let_def)
qed

lemma round_even_le: "y \<le> of_int k \<Longrightarrow> round_even y \<le> k"
proof (cases "y = of_int k")
  case True
  then show ?thesis by (simp add: round_even_def)
next
  case False
  assume "y \<le> of_int k"
  then have "y < of_int k" using False by simp
  then have "\<lfloor>y\<rfloor> < k" by (simp add: floor_less_iff)
  then show ?thesis by (auto simp: round_even_def Let_def)
qed

lemma ulp_pos: "0 < ulp p x"
  by (simp add: ulp_def)

lemma round_pos_multiple:
  assumes "y = of_int k * ulp p x"
  shows "y \<le> x \<Longrightarrow> y \<le> round_pos p x" and "x \<le> y \<Longrightarrow> round_pos p x \<le> y"
proof -
  have u: "0 < ulp p x" by (rule ulp_pos)
  {
    assume "y \<le> x"
    then have "of_int k \<le> x / ulp p x"
      using u assms by (simp add: field_simps)
    then have "k \<le> round_even (x / ulp p x)" by (rule round_even_ge)
    then have "of_int k * ulp p x \<le> of_int (round_even (x / ulp p x)) * ulp p x"
      using u by (intro mult_right_mono) auto
    then show "y \<le> round_pos p x" by (simp add: assms round_pos_def)
  }
  {
    assume "x \<le> y"
    then have "x / ulp p x \<le> of_int k"
      using u assms by (simp add: field_simps)
    then have "round_even (x / ulp p x) \<le> k" by (rule round_even_le)
    then have "of_int (round_even (x / ulp p x)) * ulp p x \<le> of_int k * ulp p x"
      using u by (intro mult_right_mono) auto
    then show "round_pos p x \<le> y" by (simp add: assms round_pos_def)
  }
qed

lemma ulp_small:
  assumes "\<lfloor>log 2 x\<rfloor> \<le> int p - 1 - int s"
  shows "\<exists>d. ulp p x = 1 / 2 ^ (s + d)"
proof -
  define z where "z = int p - 1 - \<lfloor>log 2 x\<rfloor>"
  have "int s \<le> z" using assms by (simp add: z_def)
  then obtain d where d: "z = int (s + d)"
    by (metis nat_le_iff_add nat_int zle_iff_zadd of_nat_add)
  have "\<lfloor>log 2 x\<rfloor> - int p + 1 = - z"
    by (simp add: z_def)
  then have "ulp p x = 2 powr of_int (- z)"
    by (simp only: ulp_def)
  also have "\<dots> = 2 powr (- real (s + d))"
    unfolding d by simp
  also have "\<dots> = inverse (2 powr real (s + d))"
    by (rule powr_minus)
  also have "\<dots> = 1 / 2 ^ (s + d)"
    by (simp only: powr_realpow zero_less_numeral inverse_eq_divide)
  finally show ?thesis by blast
qed

lemma round_pos_dyadic:
  assumes "\<lfloor>log 2 x\<rfloor> \<le> int p - 1 - int s" and y: "y = of_int m / 2 ^ s"
  shows "y \<le> x \<Longrightarrow> y \<le> round_pos p x" and "x \<le> y \<Longrightarrow> round_pos p x \<le> y"
proof -
  obtain d where d: "ulp p x = 1 / 2 ^ (s + d)"
    using ulp_small [OF assms(1)] by blast
  have "y = of_int (m * 2 ^ d) * ulp p x"
    unfolding d y by (simp add: power_add)
  then show "y \<le> x \<Longrightarrow> y \<le> round_pos p x" and "x \<le> y \<Longrightarrow> round_pos p x \<le> y"
    using round_pos_multiple by blast+
qed

lemma round_pos_binade:
  assumes "0 < x" "0 < p"
  shows "2 powr of_int \<lfloor>log 2 x\<rfloor> \<le> round_pos p x"
proof -
  let ?e = "\<lfloor>log 2 x\<rfloor>"
  have "2 powr of_int ?e \<le> x"
    using assms floor_log_eq_powr_iff [of x 2 ?e] by simp
  moreover have "2 powr of_int ?e = of_int (2 ^ (p - 1)) * ulp p x"
  proof -
    have "of_int ?e = real (p - 1) + of_int (?e - int p + 1)"
      using assms by (simp add: of_nat_diff)
    then have "2 powr of_int ?e = 2 powr real (p - 1) * 2 powr of_int (?e - int p + 1)"
      by (metis powr_add)
    then show ?thesis
      by (simp add: ulp_def powr_realpow)
  qed
  ultimately show ?thesis
    using round_pos_multiple(1) by blast
qed

lemma round_pos_ge_threshold:
  assumes "0 < x" "24 \<le> p" "y = of_int m / 2 ^ 12" "y \<le> 2048" "y \<le> x"
  shows "y \<le> round_pos p x"
proof (cases "\<lfloor>log 2 x\<rfloor> \<le> 11")
  case True
  then have "\<lfloor>log 2 x\<rfloor> \<le> int p - 1 - int 12"
    using assms(2) by linarith
  then show ?thesis
    using round_pos_dyadic(1) [of x p 12 y m] assms by simp
next
  case False
  then have "12 \<le> \<lfloor>log 2 x\<rfloor>" by simp
  then have "(12::real) \<le> of_int \<lfloor>log 2 x\<rfloor>" by linarith
  then have "2 powr (12::real) \<le> 2 powr of_int \<lfloor>log 2 x\<rfloor>"
    by (simp only: powr_le_cancel_iff) 
  moreover have "2 powr (12::real) = 4096"
    using powr_realpow [of 2 12] by simp
  moreover have "2 powr of_int \<lfloor>log 2 x\<rfloor> \<le> round_pos p x"
    using assms by (intro round_pos_binade) auto
  ultimately show ?thesis using assms(4) by linarith
qed

lemma round_pos_le_threshold:
  assumes "0 < x" "24 \<le> p" "y = of_int m / 2 ^ 12" "y \<le> 2048" "x \<le> y"
  shows "round_pos p x \<le> y"
proof -
  have "x < 2 powr 12"
    using assms powr_realpow [of 2 12] by simp
  then have "log 2 x < 12"
    using assms(1) by (simp add: log_less_iff)
  then have "\<lfloor>log 2 x\<rfloor> < 12" by (simp add: floor_less_iff)
  then have "\<lfloor>log 2 x\<rfloor> \<le> int p - 1 - int 12"
    using assms(2) by linarith
  then show ?thesis
    using round_pos_dyadic(2) [of x p 12 y m] assms by simp
qed

lemma round_pos_pos:
  assumes "0 < x" "0 < p"
  shows "0 < round_pos p x"
proof -
  have "0 < 2 powr real_of_int \<lfloor>log 2 x\<rfloor>" by simp
  then show ?thesis
    using round_pos_binade [OF assms] by linarith
qed

lemma float_double_ge:
  assumes "y = of_int m / 2 ^ 12" "0 < y" "y \<le> 2048" "y \<le> x"
  shows "y \<le> to_float (to_double x)"
proof -
  have x: "0 < x" using assms by simp
  have 1: "y \<le> round_pos 53 x"
    using assms x by (intro round_pos_ge_threshold [where m = m]) auto
  then have "0 < round_pos 53 x" using assms by simp
  moreover from this have "y \<le> round_pos 24 (round_pos 53 x)"
    using assms 1 by (intro round_pos_ge_threshold [where m = m]) auto
  ultimately show ?thesis
    using x by (simp add: to_float_def to_double_def round_to_def)
qed

lemma float_double_le:
  assumes "y = of_int m / 2 ^ 12" "y \<le> 2048" "0 < x" "x \<le> y"
  shows "to_float (to_double x) \<le> y"
proof -
  have 1: "round_pos 53 x \<le> y"
    using assms by (intro round_pos_le_threshold [where m = m]) auto
  have 2: "0 < round_pos 53 x"
    using assms by (intro round_pos_pos) auto
  then have "round_pos 24 (round_pos 53 x) \<le> y"
    using assms 1 by (intro round_pos_le_threshold [where m = m]) auto
  then show ?thesis
    using assms 2 by (simp add: to_float_def to_double_def round_to_def)
qed

lemma float_double_pos:
  assumes "0 < x"
  shows "0 < to_float (to_double x)"
proof -
  have 1: "0 < round_pos 53 x"
    using assms by (intro round_pos_pos) auto
  have "0 < round_pos 24 (round_pos 53 x)"
    using 1 by (rule round_pos_pos) simp
  then show ?thesis
    using assms 1 by (simp add: to_float_def to_double_def round_to_def)
qed

lemma float_double_zero: "to_float (to_double 0) = 0"
  by (simp add: to_float_def to_double_def round_to_def)

lemma to_float_int:
  assumes "0 \<le> r" "r \<le> 2047"
  shows "to_float (real_of_int r) = real_of_int r"
proof (cases "r = 0")
  case True
  then show ?thesis by (simp add: to_float_def round_to_def)
next
  case False
  then have r: "0 < real_of_int r" "real_of_int r \<le> 2048" using assms by auto
  have y: "real_of_int r = of_int (r * 4096) / 2 ^ 12" by simp
  have "round_pos 24 (real_of_int r) \<le> real_of_int r"
    using r by (intro round_pos_le_threshold [OF _ _ y]) auto
  moreover have "real_of_int r \<le> round_pos 24 (real_of_int r)"
    using r by (intro round_pos_ge_threshold [OF _ _ y]) auto
  ultimately show ?thesis
    using r by (simp add: to_float_def round_to_def)
qed

lemma sqrt_below:
  fixes n r :: int
  assumes "1 \<le> r" "r \<le> 2048" "0 \<le> n" "n < r\<^sup>2"
  shows "sqrt (real_of_int n) \<le> real_of_int (r * 4096 - 1) / 2 ^ 12"
proof -
  let ?y = "real_of_int (r * 4096 - 1) / 2 ^ 12"
  have y0: "0 \<le> ?y" using assms by simp
  have "real_of_int n \<le> (real_of_int r)\<^sup>2 - 1"
  proof -
    have "n \<le> r\<^sup>2 - 1" using assms by simp
    then have "real_of_int n \<le> real_of_int (r\<^sup>2 - 1)" by (simp only: of_int_le_iff)
    then show ?thesis by simp
  qed
  also have "\<dots> \<le> ?y\<^sup>2"
  proof -
    have e: "?y = real_of_int r - 1 / 4096" by (simp add: field_simps)
    have "(real_of_int r - 1 / 4096)\<^sup>2
            = (real_of_int r)\<^sup>2 - real_of_int r / 2048 + 1 / 4096\<^sup>2"
      by (simp add: power2_eq_square algebra_simps)
    moreover have "real_of_int r / 2048 \<le> 1" using assms by simp
    ultimately show ?thesis unfolding e by simp
  qed
  finally show ?thesis
    using y0 by (intro real_le_lsqrt) auto
qed

lemma sqrt_above:
  fixes n r :: int
  assumes "0 \<le> r" "r \<le> 2047" "r\<^sup>2 < n"
  shows "real_of_int (r * 4096 + 1) / 2 ^ 12 \<le> sqrt (real_of_int n)"
proof -
  let ?y = "real_of_int (r * 4096 + 1) / 2 ^ 12"
  have "?y = real_of_int r + 1 / 4096" by (simp add: field_simps)
  then have "?y\<^sup>2 = (real_of_int r)\<^sup>2 + real_of_int r / 2048 + 1 / 4096\<^sup>2"
    by (simp add: power2_eq_square algebra_simps)
  moreover have "real_of_int r / 2048 + 1 / 4096\<^sup>2 \<le> 1"
  proof -
    have "real_of_int r \<le> 2047" using assms by simp
    then show ?thesis by simp
  qed
  ultimately have "?y\<^sup>2 \<le> (real_of_int r)\<^sup>2 + 1" by simp
  also have "\<dots> \<le> real_of_int n"
  proof -
    have "r\<^sup>2 + 1 \<le> n" using assms by simp
    then have "real_of_int (r\<^sup>2 + 1) \<le> real_of_int n" by (simp only: of_int_le_iff)
    then show ?thesis by simp
  qed
  finally show ?thesis
    by (rule real_le_rsqrt)
qed

lemma float_root_ge_iff:
  fixes n r :: int
  assumes "0 \<le> r" "r \<le> 2047" "0 \<le> n"
  shows "real_of_int r \<le> to_float (to_double (sqrt (real_of_int n))) \<longleftrightarrow> r\<^sup>2 \<le> n"
proof (cases "n = 0")
  case True
  then show ?thesis using assms by (simp add: float_double_zero)
next
  case False
  then have n: "1 \<le> n" using assms by simp
  then have x: "0 < sqrt (real_of_int n)" by simp
  show ?thesis
  proof (cases "r\<^sup>2 \<le> n")
    case True
    have "real_of_int r \<le> to_float (to_double (sqrt (real_of_int n)))"
    proof (cases "r = 0")
      case True
      have "0 < to_float (to_double (sqrt (real_of_int n)))"
        using x by (rule float_double_pos)
      then show ?thesis using True by simp
    next
      case False
      have "(real_of_int r)\<^sup>2 \<le> real_of_int n"
        using True by (metis of_int_le_iff of_int_power)
      then have "real_of_int r \<le> sqrt (real_of_int n)"
        by (rule real_le_rsqrt)
      then show ?thesis
        using assms False
        by (intro float_double_ge [where m = "r * 4096"]) auto
    qed
    then show ?thesis using True by simp
  next
    case False
    then have lt: "n < r\<^sup>2" by simp
    then have r1: "1 \<le> r" using assms n by (cases "r = 0") auto
    let ?y = "real_of_int (r * 4096 - 1) / 2 ^ 12"
    have "sqrt (real_of_int n) \<le> ?y"
      using r1 assms lt by (intro sqrt_below) auto
    moreover have "?y \<le> 2048" using assms by simp
    ultimately have "to_float (to_double (sqrt (real_of_int n))) \<le> ?y"
      using x by (intro float_double_le [where m = "r * 4096 - 1"]) auto
    moreover have "?y < real_of_int r" by (simp add: field_simps)
    ultimately show ?thesis using False by simp
  qed
qed

lemma float_root_le_iff:
  fixes n r :: int
  assumes "0 \<le> r" "r \<le> 2047" "0 \<le> n"
  shows "to_float (to_double (sqrt (real_of_int n))) \<le> real_of_int r \<longleftrightarrow> n \<le> r\<^sup>2"
proof (cases "n = 0")
  case True
  then show ?thesis using assms by (simp add: float_double_zero)
next
  case False
  then have n: "1 \<le> n" using assms by simp
  then have x: "0 < sqrt (real_of_int n)" by simp
  show ?thesis
  proof (cases "n \<le> r\<^sup>2")
    case True
    have "real_of_int n \<le> (real_of_int r)\<^sup>2"
      using True by (metis of_int_le_iff of_int_power)
    then have "sqrt (real_of_int n) \<le> real_of_int r"
      using assms by (intro real_le_lsqrt) auto
    then have "to_float (to_double (sqrt (real_of_int n))) \<le> real_of_int r"
      using assms x by (intro float_double_le [where m = "r * 4096"]) auto
    then show ?thesis using True by simp
  next
    case False
    then have gt: "r\<^sup>2 < n" by simp
    let ?y = "real_of_int (r * 4096 + 1) / 2 ^ 12"
    have "?y \<le> sqrt (real_of_int n)"
      using assms gt by (intro sqrt_above) auto
    moreover have "?y \<le> 2048" using assms by simp
    moreover have "0 < ?y" using assms by simp
    ultimately have "?y \<le> to_float (to_double (sqrt (real_of_int n)))"
      by (intro float_double_ge [where m = "r * 4096 + 1"]) auto
    moreover have "real_of_int r < ?y" by (simp add: field_simps)
    ultimately show ?thesis using False by simp
  qed
qed

lemma in_annulus_squares:
  assumes "0 \<le> inner_rad" "inner_rad \<le> 2047" "0 \<le> outer_rad" "outer_rad \<le> 2047"
  shows "in_annulus sz inner_rad outer_rad i j \<longleftrightarrow>
           inner_rad\<^sup>2 \<le> (j - sz div 2)\<^sup>2 + (i - sz div 2)\<^sup>2
         \<and> (j - sz div 2)\<^sup>2 + (i - sz div 2)\<^sup>2 \<le> outer_rad\<^sup>2"
proof -
  let ?d = "(i - sz div 2) * (i - sz div 2) + (j - sz div 2) * (j - sz div 2)"
  have d: "0 \<le> ?d" by simp
  have e: "(j - sz div 2)\<^sup>2 + (i - sz div 2)\<^sup>2 = ?d"
    by (simp add: power2_eq_square)
  have "real_of_int inner_rad \<le> to_float (to_double (sqrt (real_of_int ?d)))
          \<longleftrightarrow> inner_rad\<^sup>2 \<le> ?d"
    using assms(1,2) d by (rule float_root_ge_iff)
  moreover have "to_float (to_double (sqrt (real_of_int ?d))) \<le> real_of_int outer_rad
          \<longleftrightarrow> ?d \<le> outer_rad\<^sup>2"
    using assms(3,4) d by (rule float_root_le_iff)
  ultimately show ?thesis
    unfolding e
    by (simp add: in_annulus_def Let_def to_float_int [OF assms(1,2)]
        to_float_int [OF assms(3,4)])
qed

lemma count_marked_rows:
  "length (filter (\<lambda>p. p \<noteq> (0::byte)) (concat (map (\<lambda>i. map (g i) js) is)))
     = (\<Sum>i\<leftarrow>is. length (filter (\<lambda>j. g i j \<noteq> 0) js))"
  by (induction "is") (simp_all add: filter_map comp_def)

lemma annular_mask_pixels_sequential:
  "annular_mask_pixels sz inner_rad outer_rad val sequential =
     map (\<lambda>i. map (\<lambda>j. if in_annulus sz inner_rad outer_rad i j then val else 0)
                 [0 .. sz - 1])
         [0 .. sz - 1]"
  unfolding annular_mask_pixels_def sequential_def
  by (intro map_cong refl) (auto simp: list_ex_iff)

lemma countNonZero_annular_mask:
  assumes "val \<noteq> 0"
  shows "countNonZero (annular_mask_pixels sz inner_rad outer_rad val sequential)
     = (\<Sum>i\<in>{0 .. sz - 1}. card {j \<in> {0 .. sz - 1}. in_annulus sz inner_rad outer_rad i j})"
proof -
  have "length (filter (\<lambda>j. (if in_annulus sz inner_rad outer_rad i j then val else 0) \<noteq> 0)
          [0 .. sz - 1])
        = card {j \<in> {0 .. sz - 1}. in_annulus sz inner_rad outer_rad i j}" for i
  proof -
    have "(\<lambda>j. (if in_annulus sz inner_rad outer_rad i j then val else 0) \<noteq> 0)
          = in_annulus sz inner_rad outer_rad i"
      using assms by auto
    moreover have "{j. in_annulus sz inner_rad outer_rad i j} \<inter> {0 .. sz - 1}
          = {j \<in> {0 .. sz - 1}. in_annulus sz inner_rad outer_rad i j}"
      by auto
    ultimately show ?thesis
      by (simp add: distinct_length_filter)
  qed
  then show ?thesis
    unfolding countNonZero_def annular_mask_pixels_sequential count_marked_rows
    by (simp add: sum_list_distinct_conv_sum_set)
qed

lemma annulus_row:
  assumes "0 \<le> inner_rad" "inner_rad \<le> outer_rad" "outer_rad \<le> h"
  shows "real (card {j \<in> {0 .. 2 * h}. inner_rad\<^sup>2 \<le> (j - h)\<^sup>2 + y\<^sup>2 \<and> (j - h)\<^sup>2 + y\<^sup>2 \<le> outer_rad\<^sup>2})
     = real (row_le outer_rad y) - real (row_lt inner_rad y)"
proof -
  let ?A = "{x::int. x\<^sup>2 + y\<^sup>2 \<le> outer_rad\<^sup>2}"
  let ?B = "{x::int. x\<^sup>2 + y\<^sup>2 < inner_rad\<^sup>2}"
  have finA: "finite ?A"
  proof -
    have "?A = {x. x\<^sup>2 \<le> outer_rad\<^sup>2 - y\<^sup>2}" by auto
    then show ?thesis using squares_le_finite by simp
  qed
  have io: "inner_rad\<^sup>2 \<le> outer_rad\<^sup>2"
    using assms by (intro power_mono) auto
  have BA: "?B \<subseteq> ?A"
    using io by auto
  have inA: "- h \<le> x \<and> x \<le> h" if "x \<in> ?A" for x
  proof -
    have "0 \<le> y\<^sup>2" by simp
    moreover have "x\<^sup>2 + y\<^sup>2 \<le> outer_rad\<^sup>2" using that by simp
    ultimately have "x\<^sup>2 \<le> outer_rad\<^sup>2" by linarith
    then have "\<bar>x\<bar> \<le> \<bar>outer_rad\<bar>" by (simp only: abs_le_square_iff)
    then show ?thesis using assms by auto
  qed
  have "{j \<in> {0 .. 2 * h}. inner_rad\<^sup>2 \<le> (j - h)\<^sup>2 + y\<^sup>2 \<and> (j - h)\<^sup>2 + y\<^sup>2 \<le> outer_rad\<^sup>2}
        = (\<lambda>x. x + h) ` (?A - ?B)"
  proof (intro set_eqI iffI)
    fix j assume "j \<in> {j \<in> {0 .. 2 * h}. inner_rad\<^sup>2 \<le> (j - h)\<^sup>2 + y\<^sup>2 \<and> (j - h)\<^sup>2 + y\<^sup>2 \<le> outer_rad\<^sup>2}"
    then have "j - h \<in> ?A - ?B" by auto
    then show "j \<in> (\<lambda>x. x + h) ` (?A - ?B)"
      by (intro image_eqI [where x = "j - h"]) auto
  next
    fix j assume "j \<in> (\<lambda>x. x + h) ` (?A - ?B)"
    then obtain x where x: "j = x + h" "x \<in> ?A" "x \<notin> ?B" by auto
    then show "j \<in> {j \<in> {0 .. 2 * h}. inner_rad\<^sup>2 \<le> (j - h)\<^sup>2 + y\<^sup>2 \<and> (j - h)\<^sup>2 + y\<^sup>2 \<le> outer_rad\<^sup>2}"
      using inA [OF x(2)] by auto
  qed
  then have "card {j \<in> {0 .. 2 * h}. inner_rad\<^sup>2 \<le> (j - h)\<^sup>2 + y\<^sup>2 \<and> (j - h)\<^sup>2 + y\<^sup>2 \<le> outer_rad\<^sup>2}
        = card (?A - ?B)"
    by (simp add: card_image)
  also have "\<dots> = card ?A - card ?B"
    using BA finA by (intro card_Diff_subset) (auto intro: finite_subset)
  finally show ?thesis
    using card_mono [OF finA BA] by (simp add: row_le_def row_lt_def)
qed

lemma annulus_count_rows:
  assumes "0 \<le> inner_rad" "inner_rad \<le> outer_rad" "outer_rad \<le> h" "val \<noteq> 0"
    and "outer_rad \<le> 2047"
  shows "real (countNonZero (annular_mask_pixels (2 * h + 1) inner_rad outer_rad val sequential))
     = (\<Sum>y\<in>{- h .. h}. real (row_le outer_rad y)) - (\<Sum>y\<in>{- h .. h}. real (row_lt inner_rad y))"
proof -
  have h: "0 \<le> h" using assms by simp
  have o: "0 \<le> outer_rad" using assms by simp
  have i2: "inner_rad \<le> 2047" using assms by simp
  have d: "(2 * h + 1) div 2 = h" by simp
  have "real (countNonZero (annular_mask_pixels (2 * h + 1) inner_rad outer_rad val sequential))
      = (\<Sum>i\<in>{0 .. 2 * h}. real (card {j \<in> {0 .. 2 * h}.
            inner_rad\<^sup>2 \<le> (j - h)\<^sup>2 + (i - h)\<^sup>2 \<and> (j - h)\<^sup>2 + (i - h)\<^sup>2 \<le> outer_rad\<^sup>2}))"
    unfolding countNonZero_annular_mask [OF assms(4)]
    by (simp add: in_annulus_squares [OF assms(1) i2 o assms(5)] d)
  also have "\<dots> = (\<Sum>i\<in>{0 .. 2 * h}. real (row_le outer_rad (i - h)) - real (row_lt inner_rad (i - h)))"
    by (simp only: annulus_row [OF assms(1,2,3)])
  also have "\<dots> = (\<Sum>y\<in>{- h .. h}. real (row_le outer_rad y) - real (row_lt inner_rad y))"
    by (rule sum.reindex_bij_witness [of _ "\<lambda>y. y + h" "\<lambda>i. i - h"]) auto
  finally show ?thesis
    by (simp add: sum_subtractf)
qed


lemma annulus_pixel_count_tight:
  assumes "odd sz" "0 < inner_rad" "inner_rad < outer_rad" "2 * outer_rad < sz" "val \<noteq> 0"
    and "outer_rad \<le> 2047"
  shows "\<bar>real (countNonZero (annular_mask_pixels sz inner_rad outer_rad val sequential))
          - pi * ((real_of_int outer_rad)\<^sup>2 - (real_of_int inner_rad)\<^sup>2)\<bar>
        \<le> 4 * (real_of_int inner_rad + real_of_int outer_rad)"
proof -
  obtain h where sz: "sz = 2 * h + 1"
    using assms(1) by (auto elim: oddE)
  have oh: "outer_rad \<le> h" using assms(4) sz by simp
  define no where "no = nat outer_rad"
  define ni where "ni = nat inner_rad"
  have no: "int no = outer_rad" "real no = real_of_int outer_rad" "0 < no"
    using assms by (simp_all add: no_def)
  have ni: "int ni = inner_rad" "real ni = real_of_int inner_rad" "0 < ni"
    using assms by (simp_all add: ni_def)
  let ?o = "real_of_int outer_rad"
  let ?i = "real_of_int inner_rad"
  let ?Ao = "\<Sum>y\<in>{- h .. h}. real (row_le outer_rad y)"
  let ?Bo = "\<Sum>y\<in>{- h .. h}. real (row_lt outer_rad y)"
  let ?Ai = "\<Sum>y\<in>{- h .. h}. real (row_le inner_rad y)"
  let ?Bi = "\<Sum>y\<in>{- h .. h}. real (row_lt inner_rad y)"
  have c: "real (countNonZero (annular_mask_pixels sz inner_rad outer_rad val sequential)) = ?Ao - ?Bi"
    unfolding sz using assms oh by (intro annulus_count_rows) auto
  have Uo: "?Ao \<le> pi * ?o\<^sup>2 + 4 * ?o + 1"
    using disk_rows_upper [of no h] oh unfolding no by simp
  have Ui: "?Ai \<le> pi * ?i\<^sup>2 + 4 * ?i + 1"
    using disk_rows_upper [of ni h] oh assms(3) unfolding ni by simp
  have Lo: "pi * ?o\<^sup>2 - 4 * ?o + 1 \<le> ?Bo"
    using disk_rows_lower [of no h] oh no(3) unfolding no by simp
  have Li: "pi * ?i\<^sup>2 - 4 * ?i + 1 \<le> ?Bi"
    using disk_rows_lower [of ni h] oh assms(3) ni(3) unfolding ni by simp
  have "?Bo \<le> ?Ao" "?Bi \<le> ?Ai"
    by (auto intro!: sum_mono simp: row_lt_le)
  then show ?thesis
    unfolding c using Uo Ui Lo Li by (simp add: abs_le_iff algebra_simps)
qed


lemma sequential_annulus_pixel_count:
  assumes "odd sz" "0 < inner_rad" "inner_rad < outer_rad" "2 * outer_rad < sz" "val \<noteq> 0"
    and "outer_rad \<le> 2047"
  shows "pi * ((real_of_int outer_rad - 1)\<^sup>2 - (real_of_int inner_rad + 1)\<^sup>2)
           \<le> real (countNonZero (annular_mask_pixels sz inner_rad outer_rad val sequential))
       \<and> real (countNonZero (annular_mask_pixels sz inner_rad outer_rad val sequential))
           \<le> pi * ((real_of_int outer_rad + 1)\<^sup>2 - (real_of_int inner_rad - 1)\<^sup>2)"
proof -
  let ?o = "real_of_int outer_rad"
  let ?i = "real_of_int inner_rad"
  let ?c = "real (countNonZero (annular_mask_pixels sz inner_rad outer_rad val sequential))"
  have t: "\<bar>?c - pi * (?o\<^sup>2 - ?i\<^sup>2)\<bar> \<le> 4 * (?i + ?o)"
    by (rule annulus_pixel_count_tight [OF assms])
  have "0 \<le> ?i + ?o" using assms by simp
  then have "2 * (?i + ?o) \<le> pi * (?i + ?o)"
    using pi_ge_two by (intro mult_right_mono) auto
  then have p: "4 * (?i + ?o) \<le> 2 * pi * (?i + ?o)" by simp
  have u: "pi * ((?o + 1)\<^sup>2 - (?i - 1)\<^sup>2) = pi * (?o\<^sup>2 - ?i\<^sup>2) + 2 * pi * (?i + ?o)"
    by (simp add: power2_eq_square algebra_simps)
  have l: "pi * ((?o - 1)\<^sup>2 - (?i + 1)\<^sup>2) = pi * (?o\<^sup>2 - ?i\<^sup>2) - 2 * pi * (?i + ?o)"
    by (simp add: power2_eq_square algebra_simps)
  show ?thesis
    unfolding u l using t p by (simp add: abs_le_iff)
qed

text \<open>
  The mask of size 5 with radii 1 and 2 has 12 marked pixels when the loop runs
  sequentially; the area of the annulus is \<open>3\<pi>\<close>, about 9.42.
\<close>

lemma annulus_count_example: "countNonZero (annular_mask_pixels 5 1 2 1 sequential) = 12"
  by (simp add: countNonZero_def annular_mask_pixels_sequential in_annulus_squares upto.simps)

text \<open>
  When every store goes to the row 0 that another thread has set, the pixels of the
  other rows are lost: at most one row of pixels is marked.
\<close>

lemma lost_rows:
  "countNonZero (annular_mask_pixels sz inner_rad outer_rad val (\<lambda>i j. 0)) \<le> nat sz"
proof -
  let ?g = "\<lambda>r c. if list_ex (\<lambda>i. in_annulus sz inner_rad outer_rad i c \<and> (0::int) = r)
                         [0 .. sz - 1] then val else 0"
  have row: "length (filter (\<lambda>c. ?g r c \<noteq> 0) [0 .. sz - 1])
               \<le> (if r = 0 then nat sz else 0)" for r
  proof (cases "r = 0")
    case True
    have "length (filter (\<lambda>c. ?g r c \<noteq> 0) [0 .. sz - 1]) \<le> length [0 .. sz - 1]"
      by (rule length_filter_le)
    then show ?thesis using True by simp
  next
    case False
    then have "?g r c = 0" for c by (auto simp: list_ex_iff)
    then show ?thesis using False by simp
  qed
  have "countNonZero (annular_mask_pixels sz inner_rad outer_rad val (\<lambda>i j. 0))
          = (\<Sum>r\<leftarrow>[0 .. sz - 1]. length (filter (\<lambda>c. ?g r c \<noteq> 0) [0 .. sz - 1]))"
    unfolding countNonZero_def annular_mask_pixels_def by (rule count_marked_rows)
  also have "\<dots> \<le> (\<Sum>r\<leftarrow>[0 .. sz - 1]. if r = 0 then nat sz else 0)"
    by (intro sum_list_mono row)
  also have "\<dots> = (\<Sum>r\<in>{0 .. sz - 1}. if r = 0 then nat sz else 0)"
    by (simp add: sum_list_distinct_conv_sum_set)
  also have "\<dots> \<le> nat sz"
    by (simp add: sum.delta)
  finally show ?thesis .
qed

subsection \<open>The test for an ellipse\<close>

text \<open>
  C1. The claim: \<^verbatim>\<open>is_ellipse\<close> is false exactly when \<open>4AC - B\<^sup>2 \<le> 0\<close>, and true
  otherwise. The test of line 372 is the other way round: the unit circle
  \<open>x\<^sup>2 + y\<^sup>2 - 1 = 0\<close> has \<open>4AC - B\<^sup>2 = 4\<close>, and the function returns it with
  \<^verbatim>\<open>is_ellipse\<close> false and no other field set. (By \<open>is_ellipse_false_iff\<close> the
  function returns \<^verbatim>\<open>is_ellipse = false\<close> exactly when \<open>4AC - B\<^sup>2 > 0\<close>.)
\<close>

theorem unit_circle_rejected:
  "ellipse_points_from_conic el [Fin 1, Fin 0, Fin 1, Fin 0, Fin 0, Fin (- 1)]
     = Inr (el\<lparr>is_ellipse := False\<rparr>)"
  by (simp add: ellipse_points_from_conic_six)

subsection \<open>The round trip\<close>

text \<open>
  C2. The claim: the conic of a valid ellipse gives back its centre, axes and angle, with
  \<^verbatim>\<open>is_ellipse\<close> true. For the ellipse with centre \<open>(0, 0)\<close>, semi-axes \<open>2\<close> and \<open>1\<close> and
  angle \<open>0\<close>, whose conic is \<open>x\<^sup>2/4 + y\<^sup>2 - 1 = 0\<close>, the function returns with
  \<^verbatim>\<open>is_ellipse\<close> false and neither centre, axes nor angle assigned.
\<close>

theorem round_trip_rejected:
  "ellipse_points_from_conic el (conic_of_ellipse 0 0 2 1 0) = Inr (el\<lparr>is_ellipse := False\<rparr>)"
  by (simp add: conic_of_ellipse_axis_aligned ellipse_points_from_conic_six)

subsection \<open>The recorded angle\<close>

text \<open>
  C5. The claim: the recorded angle is \<open>atan(B/(A-C))/2\<close>, with \<open>\<pi>/2\<close> added when that
  is negative. The code adds \<open>\<pi>/2\<close> to twice the angle, which is \<open>\<pi>/4\<close> on the angle. For
  the conic with \<open>A = 1\<close>, \<open>B = -2\<close>, \<open>C = -1\<close>, which the test of line 372 lets through,
  half the arc tangent is \<open>-\<pi>/8\<close>; the code records \<open>\<pi>/8\<close>, the claim gives \<open>3\<pi>/8\<close>.
  The tangent of twice the recorded angle is \<open>1\<close> and not \<open>B/(A-C) = -1\<close>, so the
  rotation by the recorded angle does not remove the term in \<open>x y\<close>.
\<close>

theorem recorded_angle_quarter_pi:
  "\<not> (Fin 4 * Fin 1 * Fin (- 1) - Fin (- 2) * Fin (- 2) > Fin 0)
   \<and> arctan (- 2 / (1 - (- 1))) / 2 = - (pi / 8)
   \<and> angle (conic_to_ellipse el (Fin 1) (Fin (- 2)) (Fin (- 1)) (Fin 0) (Fin 0) (Fin 1))
       = Fin (pi / 8)
   \<and> pi / 8 \<noteq> - (pi / 8) + pi / 2
   \<and> tan (2 * (pi / 8)) \<noteq> - 2 / (1 - (- 1))"
proof -
  have a: "arctan (- 2 / (1 - (- 1))) = - (pi / 4)"
    by (simp add: arctan_minus arctan_one)
  have "rotation_angle (Fin 1) (Fin (- 2)) (Fin (- 1)) = Fin (pi / 8)"
    unfolding rotation_angle_finite a by simp
  moreover have "pi / 8 \<noteq> - (pi / 8) + pi / 2"
    using pi_gt_zero by simp
  moreover have "tan (2 * (pi / 8)) = 1"
    using tan_45 by simp
  ultimately show ?thesis
    unfolding a by (simp add: angle_conic_to_ellipse minus_dbl_def)
qed

subsection \<open>The four extremal points\<close>

text \<open>
  C10. The claim: every access to the vector \<^verbatim>\<open>extrema\<close> of 4 elements is within its
  bounds. The code assigns the elements 1 to 4, and element 4 is outside: every conic that
  reaches line 426 meets it (\<open>extrema_points_out_of_range\<close>), as the hyperbola
  \<open>x\<^sup>2 - y\<^sup>2 + 1 = 0\<close> does.
\<close>

theorem extrema_index_four:
  "ellipse_points_from_conic el [Fin 1, Fin 0, Fin (- 1), Fin 0, Fin 0, Fin 1]
     = Inl (IndexOutOfRange 4 4)"
  by (simp add: ellipse_points_from_conic_six)

subsection \<open>The refinement of the mask\<close>


subsection \<open>The result of the conic fit\<close>

text \<open>
  C4. The claim: \<^verbatim>\<open>hyper_renorm_ellipse\<close> returns the 6 coefficients of the conic, a
  vector of length 6. The vector returned is declared with 5 elements, so a vector that
  the function returns has 5 (\<open>hyper_renorm_ellipse_length\<close>); when the fit of the
  engine returns the six coefficients of the unit circle, the sixth is assigned outside
  the vector.
\<close>

theorem six_coefficients_overflow:
  "hyper_renorm_ellipse (Inr six_engine) [[1]] [[Fin 1]] (Fin 1) thresh max_iter
     = Inl (IndexOutOfRange 5 5)"
  by (simp add: hyper_renorm_ellipse_def six_engine_def bind_err_def vec_get_def vec_set_def
      mat_ptr_read_def mat_cols_of_def)

subsection \<open>The labels of the clustering\<close>

text \<open>
  C6. The claim: \<^verbatim>\<open>weighted_kmeans\<close> gives one label for each sample and \<open>k\<close> centres.
  For one variable with three samples and \<open>k = 3\<close> the vector of labels gets one element,
  the number of variables, and the first assignment to a centre is outside its empty
  inner vector.
\<close>

theorem one_label_for_three_samples:
  "repackage_labels [[Fin 1, Fin 2, Fin 3]] [[Fin 0, Fin 1, Fin 2], [Fin 1, Fin 2, Fin 3], []]
     = Inr [0]
   \<and> weighted_kmeans (Inr three_clusters) [[Fin 1, Fin 2, Fin 3]] [Fin 1, Fin 1, Fin 1] 3
     = Inl (IndexOutOfRange 0 0)"
  by (simp add: weighted_kmeans_def repackage_labels_def repackage_centers_def flatten_data_def
      assign_center_row_def assign_center_def trunc_real_def
      three_clusters_def bind_err_def vec_get_def vec_set_def upto.simps)

subsection \<open>A mask without marked pixels\<close>

text \<open>
  C7. The claim: for a mask with no non-zero pixel \<^verbatim>\<open>hyper_renorm_ellipse\<close> rejects the
  input at its entry with an error, and no fit is attempted. The function has no such
  test: for a mask of four zero pixels it calls the engine with empty arrays and returns
  what the engine answers.
\<close>

theorem empty_mask_counterexample:
  "hyper_renorm_ellipse (Inr empty_fit_engine) [[0, 0], [0, 0]]
      [[Fin 1, Fin 1], [Fin 1, Fin 1]] (Fin 1) (Fin 0) 10
     = Inr [Fin 1, Fin 2, Fin 3, Fin 4, Fin 5]"
  by (simp add: hyper_renorm_ellipse_def empty_fit_engine_def bind_err_def vec_get_def
      vec_set_def mat_ptr_read_def mat_cols_of_def eval_nat_numeral)

text \<open>
  C7, as amended: for every mask with no non-zero pixel \<^verbatim>\<open>hyper_renorm_ellipse\<close> makes
  no test of its own; once the engine is connected it calls the fit with empty arrays of
  positions and weights and stores the values returned in its vector of 5 elements. The
  only errors are those of the engine and of that vector.
\<close>

theorem empty_mask_is_fitted:
  assumes "countNonZero msk = 0"
  shows "hyper_renorm_ellipse connectMATLAB msk weights f0 thresh max_iter =
     bind_err connectMATLAB (\<lambda>feval.
     bind_err (feval ''hyper_renorm_ellipse'' 1
        [ArrD 0 1 [], ArrD 0 1 [], ArrD 0 1 [], ScalarD f0, ScalarI max_iter, ScalarD thresh])
       (\<lambda>res.
     bind_err (vec_get res 0) (\<lambda>el.
       store_params (replicate 5 (Fin 0)) 0 el)))"
proof -
  have "\<forall>row\<in>set msk. \<forall>p\<in>set row. p = 0"
    using assms by (auto simp: countNonZero_def filter_empty_conv)
  then show ?thesis
    by (simp add: hyper_renorm_ellipse_def package_rows_zero bind_err_def)
qed

theorem empty_mask_is_fitted_witness:
  "countNonZero [[0, 0, 0]] = 0 \<and>
   hyper_renorm_ellipse (Inr empty_fit_engine) [[0, 0, 0]] [] (Fin 1) (Fin 0) 10
     = Inr [Fin 1, Fin 2, Fin 3, Fin 4, Fin 5]"
proof -
  have z: "countNonZero [[0, 0, 0]] = 0"
    by (simp add: countNonZero_def)
  show ?thesis
    using z empty_mask_is_fitted [OF z, of "Inr empty_fit_engine" "[]" "Fin 1" "Fin 0" 10]
    by (simp add: empty_fit_engine_def bind_err_def vec_get_def vec_set_def eval_nat_numeral)
qed

subsection \<open>The argument of \<^verbatim>\<open>create_annular_mask\<close>\<close>

text \<open>
  C9. The claim: for every call of \<^verbatim>\<open>create_annular_mask\<close> the matrix that the caller
  passes is unchanged after the call. A caller that passes a 3 by 3 matrix of type
  \<^verbatim>\<open>CV_8UC1\<close> whose pixels are all 7, and asks for size 3 and the radii 0 and 1, finds
  the annulus in its pixels: the assignment of line 157 keeps the buffer that the
  parameter shares with the caller's matrix.
\<close>

theorem caller_pixels_overwritten:
  "create_annular_mask sequential [[[7, 7, 7], [7, 7, 7], [7, 7, 7]]]
      \<lparr>mat_rows = 3, mat_cols = 3, mat_type = CV_8UC1, mat_data = Some 0\<rparr> 3 0 1 1
     = Inr [[[0, 1, 0], [1, 1, 1], [0, 1, 0]]]"
  by (simp add: create_annular_mask_result mat_write_def annular_mask_pixels_sequential
      in_annulus_squares upto.simps)

text \<open>
  C9, as amended: a call of \<^verbatim>\<open>create_annular_mask\<close> never changes the header of the
  caller's matrix, which it gets by value, and it leaves every pixel buffer as it was
  unless the matrix passed already has pixels of the size asked for and of type
  \<^verbatim>\<open>CV_8UC1\<close>; then the annulus is written into the pixels of that matrix. (A call
  with a negative size that needs a new buffer, or with a size from 65536 on, fails.) In
  \<^verbatim>\<open>get_ellipses\<close> the matrix passed is the empty matrix of line 85, so whenever the
  call returns the heap is unchanged and \<^verbatim>\<open>annulus_mask\<close> is still the empty matrix:
  no pixel of it is marked.
\<close>

theorem annulus_argument_frame:
  "create_annular_mask row_of h annulus sz inner_rad outer_rad val =
     (if sz < 0 \<and> (mat_data annulus = None \<or> mat_rows annulus \<noteq> sz
           \<or> mat_cols annulus \<noteq> sz \<or> mat_type annulus \<noteq> CV_8UC1)
      then Inl (NegativeSize sz)
      else if 65536 \<le> sz then Inl IntOverflow
      else if mat_data annulus \<noteq> None \<and> mat_rows annulus = sz \<and> mat_cols annulus = sz
         \<and> mat_type annulus = CV_8UC1
      then Inr (mat_write h annulus (annular_mask_pixels sz inner_rad outer_rad val row_of))
      else Inr h)
   \<and> (\<forall>h' m. get_ellipses_annulus_mask row_of h est_rad0 est_rad1 = Inr (h', m) \<longrightarrow>
         h' = h \<and> m = empty_mat \<and> countNonZero (mat_pixels h' m) = 0)"
proof (rule conjI)
  show "create_annular_mask row_of h annulus sz inner_rad outer_rad val =
     (if sz < 0 \<and> (mat_data annulus = None \<or> mat_rows annulus \<noteq> sz
           \<or> mat_cols annulus \<noteq> sz \<or> mat_type annulus \<noteq> CV_8UC1)
      then Inl (NegativeSize sz)
      else if 65536 \<le> sz then Inl IntOverflow
      else if mat_data annulus \<noteq> None \<and> mat_rows annulus = sz \<and> mat_cols annulus = sz
         \<and> mat_type annulus = CV_8UC1
      then Inr (mat_write h annulus (annular_mask_pixels sz inner_rad outer_rad val row_of))
      else Inr h)"
    by (rule create_annular_mask_result)
next
  show "\<forall>h' m. get_ellipses_annulus_mask row_of h est_rad0 est_rad1 = Inr (h', m) \<longrightarrow>
         h' = h \<and> m = empty_mat \<and> countNonZero (mat_pixels h' m) = 0"
  proof (intro allI impI)
    fix h' m
    assume "get_ellipses_annulus_mask row_of h est_rad0 est_rad1 = Inr (h', m)"
    then have "h' = h" "m = empty_mat"
      by (auto simp: get_ellipses_annulus_mask_def create_annular_mask_result empty_mat_def
          bind_err_def Let_def split: sum.splits if_splits)
    then show "h' = h \<and> m = empty_mat \<and> countNonZero (mat_pixels h' m) = 0"
      by (simp add: countNonZero_def mat_pixels_def empty_mat_def)
  qed
qed

theorem annulus_argument_frame_witness:
  "get_ellipses_annulus_mask sequential [[[7]]] (Fin 1) (Fin 2) = Inr ([[[7]]], empty_mat)
   \<and> countNonZero (mat_pixels [[[7]]] empty_mat) = 0"
proof -
  have f: "to_float 4 = 4" "to_float 5 = 5"
    using to_float_int [of 4] to_float_int [of 5] by simp_all
  have c: "create_annular_mask sequential [[[7]]] empty_mat 5 1 2 1 = Inr [[[7]]]"
    using annulus_argument_frame [of sequential "[[[7]]]" empty_mat 5 1 2 1]
    by (simp add: empty_mat_def)
  have g: "get_ellipses_annulus_mask sequential [[[7]]] (Fin 1) (Fin 2)
             = Inr ([[[7]]], empty_mat)"
    by (simp add: get_ellipses_annulus_mask_def Let_def bind_err_def f c trunc_real_def)
  show ?thesis
    using g annulus_argument_frame [of sequential "[[[7]]]" _ _ _ _ _ "Fin 1" "Fin 2"]
    by simp
qed

subsection \<open>The pixel count of the annular mask\<close>

text \<open>
  C8. The claim: for an odd size and radii with \<open>0 < inner < outer < size/2\<close>, the number
  of pixels that the annular mask generation marks equals the area
  \<open>\<pi>(outer\<^sup>2 - inner\<^sup>2)\<close> of the annulus up to 1 px at each boundary. The generation
  gets its matrix by value: for the size 11 and the radii 1 and 5, called as
  \<^verbatim>\<open>get_ellipses\<close> calls it, with a matrix that has no pixels, it leaves the heap as
  it was and the caller's matrix without a marked pixel, whatever the schedule of the
  loop. The area is \<open>24\<pi>\<close>, and the annulus with both boundaries moved 1 px into it
  still has the area \<open>12\<pi>\<close>. (The matrix that the function discards has the count of
  the claim when the loop runs sequentially, \<open>sequential_annulus_pixel_count\<close>, and
  loses rows when the threads share the row pointer, \<open>lost_rows\<close>.)
\<close>

theorem annular_mask_not_delivered:
  "create_annular_mask row_of h empty_mat 11 1 5 1 = Inr h
   \<and> countNonZero (mat_pixels h empty_mat) = 0
   \<and> 0 < pi * ((5 - 1)\<^sup>2 - (1 + 1)\<^sup>2)
   \<and> 2 < pi * (5\<^sup>2 - 1\<^sup>2)"
proof -
  have "2 < pi * 24" using pi_ge_two by simp
  then show ?thesis
    by (simp add: create_annular_mask_result empty_mat_def countNonZero_def mat_pixels_def)
qed

end
